theory Spec2Isabelle
  imports Complex_Main "HOL-Library.Word" "HOL-Library.Log_Nat" "HOL-Library.Sublist"
begin

unbundle bit_operations_syntax

section \<open>The RightMic driver: shared definitions (RightMicDriver.h)\<close>

text \<open>
  The driver is a CoreAudio plug-in written in C. Its unsigned integers are modelled as
  words of their width (\<open>UInt32\<close>, \<open>uint64_t\<close>), so every \<open>+\<close>, \<open>-\<close> and \<open>*\<close> wraps as in
  C. A \<open>Float32\<close> sample is only ever moved by \<open>memcpy\<close> or cleared by \<open>memset\<close>, so it is
  modelled by its 32-bit pattern; the all-zero pattern is the sample \<open>0.0\<close>.
\<close>

type_synonym UInt32 = "32 word"
type_synonym UInt64 = "64 word"
type_synonym sample = "32 word"

definition kRightMic_ChannelCount :: nat where
  "kRightMic_ChannelCount = 2"

definition kRightMic_BitsPerChannel :: nat where
  "kRightMic_BitsPerChannel = 32"

definition kRightMic_BytesPerFrame :: nat where
  "kRightMic_BytesPerFrame = kRightMic_ChannelCount * (kRightMic_BitsPerChannel div 8)"

definition kRightMic_BufferFrameSize :: nat where
  "kRightMic_BufferFrameSize = 512"

definition kRightMic_RingBufferFrames :: nat where
  "kRightMic_RingBufferFrames = 16384"

text \<open>
  The header of the memory-mapped region. The padding words carry no information and are
  left out.
\<close>

record RightMicRingBufferHeader =
  writeHead :: UInt64
  readHead :: UInt64
  active :: UInt32
  sampleRate :: UInt32
  channels :: UInt32

text \<open>
  The mapped region: the header followed by the audio data, an array of interleaved
  samples. The region the driver maps has \<open>kRightMic_RingBufferFrames\<close> frames of data.
\<close>

record shm_region =
  header :: RightMicRingBufferHeader
  ringData :: "sample list"

definition region_sized :: "shm_region \<Rightarrow> bool" where
  "region_sized r \<longleftrightarrow>
     length (ringData r) = kRightMic_RingBufferFrames * kRightMic_ChannelCount"

section \<open>Driver state and its environment\<close>

datatype OSStatus =
    kAudioHardwareNoError
  | kAudioHardwareUnknownPropertyError
  | kAudioHardwareBadPropertySizeError
  | kAudioDeviceUnsupportedFormatError
  | kAudioHardwareUnsupportedOperationError

text \<open>
  The pointers of the driver all point into the one mapping, so a pointer is modelled by
  whether it is set: \<open>sShm_Ptr\<close> is \<open>MAP_FAILED\<close> or the mapping, \<open>sRingHeader\<close> and
  \<open>sRingData\<close> are \<open>NULL\<close> or point at the header and the data of the mapping. A
  pointer that is set carries the protection \<open>mmap\<close> was asked to give the pages it points
  at: loads are allowed through either protection, stores only through
  \<open>PROT_READ_WRITE\<close> (in C, \<open>PROT_READ | PROT_WRITE\<close>).
\<close>

datatype mem_prot = PROT_READ | PROT_READ_WRITE
datatype map_ptr = MAP_FAILED | MAPPED mem_prot
datatype region_ptr = NULL | IN_REGION mem_prot

record mach_timebase_info_data_t =
  numer :: UInt32
  denom :: UInt32

record driver =
  sDeviceIsRunning :: bool
  sTimebaseInfo :: mach_timebase_info_data_t
  sIO_StartHostTime :: UInt64
  sIO_HostTicksPerPeriod :: UInt64
  sShm_FD :: int
  sShm_Ptr :: map_ptr
  sRingHeader :: region_ptr
  sRingData :: region_ptr

text \<open>The values the static initialisers of the source give the globals.\<close>

definition driver_init :: driver where
  "driver_init =
     \<lparr> sDeviceIsRunning = False,
       sTimebaseInfo = \<lparr> numer = 0, denom = 0 \<rparr>,
       sIO_StartHostTime = 0,
       sIO_HostTicksPerPeriod = 0,
       sShm_FD = -1,
       sShm_Ptr = MAP_FAILED,
       sRingHeader = NULL,
       sRingData = NULL \<rparr>"

text \<open>
  What lies outside the driver: whether the shared-memory file can be opened, the
  descriptor \<open>open\<close> returns then, whether \<open>mmap\<close> succeeds, the contents of the shared
  region (shared with the companion application, so they live here and not in the
  driver), and the system calls made so far, newest last.
\<close>

datatype syscall = Sys_open | Sys_mmap | Sys_munmap | Sys_close

record world =
  shm_file_exists :: bool
  open_fd :: nat
  mmap_succeeds :: bool
  region :: shm_region
  syscalls :: "syscall list"

section \<open>Section 14 of the source: the shared memory ring buffer\<close>

text \<open>
  \<open>RightMic_OpenSharedMemory\<close> opens the file with \<open>O_RDONLY\<close> (line 883) and maps it with
  \<open>PROT_READ\<close> (line 889); the pointers to the header and to the data are computed from
  the pointer \<open>mmap\<close> returned and lie in the same pages.
\<close>

definition RightMic_OpenSharedMemory :: "driver \<Rightarrow> world \<Rightarrow> driver \<times> world" where
  "RightMic_OpenSharedMemory s w =
     (if sShm_Ptr s \<noteq> MAP_FAILED then (s, w)
      else
        let w1 = w\<lparr> syscalls := syscalls w @ [Sys_open] \<rparr>;
            fd = (if shm_file_exists w then int (open_fd w) else -1);
            s1 = s\<lparr> sShm_FD := fd \<rparr>
        in if fd < 0 then (s1, w1)
           else
             let w2 = w1\<lparr> syscalls := syscalls w1 @ [Sys_mmap] \<rparr>
             in if \<not> mmap_succeeds w then
                  (s1\<lparr> sShm_FD := -1 \<rparr>, w2\<lparr> syscalls := syscalls w2 @ [Sys_close] \<rparr>)
                else
                  (s1\<lparr> sShm_Ptr := MAPPED PROT_READ,
                       sRingHeader := IN_REGION PROT_READ,
                       sRingData := IN_REGION PROT_READ \<rparr>,
                   w2))"

definition RightMic_CloseSharedMemory :: "driver \<Rightarrow> world \<Rightarrow> driver \<times> world" where
  "RightMic_CloseSharedMemory s w =
     (let (s1, w1) =
            (if sShm_Ptr s \<noteq> MAP_FAILED
             then (s\<lparr> sShm_Ptr := MAP_FAILED \<rparr>, w\<lparr> syscalls := syscalls w @ [Sys_munmap] \<rparr>)
             else (s, w));
          (s2, w2) =
            (if sShm_FD s1 \<ge> 0
             then (s1\<lparr> sShm_FD := -1 \<rparr>, w1\<lparr> syscalls := syscalls w1 @ [Sys_close] \<rparr>)
             else (s1, w1))
      in (s2\<lparr> sRingHeader := NULL, sRingData := NULL \<rparr>, w2))"

section \<open>Section 15 of the source: the read operation\<close>

text \<open>
  \<open>memcpy\<close> and \<open>memset\<close> on arrays of samples. Offsets count samples, the length counts
  bytes as in C (four to a sample). An access outside either array is a fault: the model
  returns \<open>None\<close> where the C program has no defined behaviour.
\<close>

definition memcpy :: "sample list \<Rightarrow> nat \<Rightarrow> sample list \<Rightarrow> nat \<Rightarrow> nat \<Rightarrow> sample list option" where
  "memcpy dst doff src soff nbytes =
     (let n = nbytes div 4
      in if doff + n \<le> length dst \<and> soff + n \<le> length src
         then Some (take doff dst @ take n (drop soff src) @ drop (doff + n) dst)
         else None)"

definition memset_zero :: "sample list \<Rightarrow> nat \<Rightarrow> sample list option" where
  "memset_zero dst nbytes =
     (let n = nbytes div 4
      in if n \<le> length dst then Some (replicate n 0 @ drop n dst) else None)"

text \<open>
  The operation identifier of the host for reading input, the four-character code
  \<open>'read'\<close> of the CoreAudio header (which is not part of the repository).
\<close>

definition kAudioServerPlugInIOOperationReadInput :: UInt32 where
  "kAudioServerPlugInIOOperationReadInput = 0x72656164"

text \<open>
  The output buffer of one call, together with the \<open>memcpy\<close> calls made on it so far
  (destination offset and source offset in samples, length in bytes), newest last.
\<close>

record io_buffer =
  outBuffer :: "sample list"
  copies :: "(nat \<times> nat \<times> nat) list"

text \<open>Line 1020: the frames available to the reader, clamped at zero.\<close>

definition available_frames :: "UInt64 \<Rightarrow> UInt64 \<Rightarrow> UInt64" where
  "available_frames wHead rHead = (if wHead \<ge> rHead then wHead - rHead else 0)"

text \<open>
  One iteration of the copy loop computes the index into the ring, the frames up to the
  end of the data and the chunk to copy now.
\<close>

definition ringIndex_of :: "UInt64 \<Rightarrow> UInt32 \<Rightarrow> UInt64" where
  "ringIndex_of rHead framesRead =
     (rHead + ucast framesRead) mod word_of_nat kRightMic_RingBufferFrames"

definition contiguous_of :: "UInt64 \<Rightarrow> UInt32" where
  "contiguous_of ringIndex = ucast (word_of_nat kRightMic_RingBufferFrames - ringIndex)"

definition chunk_of :: "UInt64 \<Rightarrow> UInt32 \<Rightarrow> UInt32 \<Rightarrow> UInt32" where
  "chunk_of rHead framesToFill framesRead =
     (let contiguous = contiguous_of (ringIndex_of rHead framesRead);
          chunk = framesToFill - framesRead
      in if chunk > contiguous then contiguous else chunk)"

subsection \<open>Word arithmetic of the loop\<close>

lemma unat_ucast_up: "unat (ucast (x :: UInt32) :: UInt64) = unat x"
proof -
  have "unat x < 2 ^ 32" using unsigned_less [of x] by simp
  then have "unat x < (2::nat) ^ 64" by simp
  then show ?thesis
    by (simp add: unsigned_ucast_eq take_bit_nat_eq_self_iff)
qed

lemma unat_ucast_down: "unat x < 2 ^ 32 \<Longrightarrow> unat (ucast (x :: UInt64) :: UInt32) = unat x"
  by (simp add: unsigned_ucast_eq take_bit_nat_eq_self_iff)

lemma word_frames64: "(word_of_nat kRightMic_RingBufferFrames :: UInt64) = 16384"
  by (simp add: kRightMic_RingBufferFrames_def)

lemma ringIndex_of_unat:
  "unat (ringIndex_of rHead framesRead) = (unat rHead + unat framesRead) mod 16384"
proof -
  have "(16384::nat) dvd 2 ^ 64" by simp
  then have "(unat rHead + unat framesRead) mod 2 ^ 64 mod 16384
             = (unat rHead + unat framesRead) mod 16384"
    by (rule mod_mod_cancel)
  then show ?thesis
    by (simp add: ringIndex_of_def word_frames64 unat_mod unat_word_ariths unat_ucast_up)
qed

lemma contiguous_of_unat:
  assumes "unat idx < 16384"
  shows "unat (contiguous_of idx) = 16384 - unat idx"
proof -
  have le: "idx \<le> 16384" using assms by (simp add: word_le_nat_alt)
  have "unat (16384 - idx) = 16384 - unat idx"
    using unat_sub [OF le] by simp
  then show ?thesis
    using assms by (simp add: contiguous_of_def word_frames64 unat_ucast_down)
qed

lemma chunk_of_unat:
  assumes "framesRead < framesToFill"
  shows "unat (chunk_of rHead framesToFill framesRead) =
         min (unat framesToFill - unat framesRead)
             (16384 - (unat rHead + unat framesRead) mod 16384)"
proof -
  let ?idx = "ringIndex_of rHead framesRead"
  have idx: "unat ?idx < 16384" by (simp add: ringIndex_of_unat)
  have c: "unat (contiguous_of ?idx) = 16384 - (unat rHead + unat framesRead) mod 16384"
    using contiguous_of_unat [OF idx] by (simp add: ringIndex_of_unat)
  have d: "unat (framesToFill - framesRead) = unat framesToFill - unat framesRead"
    using assms by (simp add: unat_sub)
  show ?thesis
    using c d by (auto simp: chunk_of_def Let_def word_less_nat_alt min_def)
qed

lemma chunk_of_advances:
  assumes "framesRead < framesToFill"
  shows "0 < unat (chunk_of rHead framesToFill framesRead)"
    and "unat (framesRead + chunk_of rHead framesToFill framesRead)
         = unat framesRead + unat (chunk_of rHead framesToFill framesRead)"
    and "unat framesRead + unat (chunk_of rHead framesToFill framesRead) \<le> unat framesToFill"
proof -
  let ?c = "chunk_of rHead framesToFill framesRead"
  have lt: "unat framesRead < unat framesToFill"
    using assms by (simp add: word_less_nat_alt)
  have m: "(unat rHead + unat framesRead) mod 16384 < 16384" by simp
  show pos: "0 < unat ?c"
    using lt m by (simp add: chunk_of_unat [OF assms])
  show le: "unat framesRead + unat ?c \<le> unat framesToFill"
    using lt by (simp add: chunk_of_unat [OF assms])
  have "unat framesToFill < 2 ^ 32" using unsigned_less [of framesToFill] by simp
  with le have "unat framesRead + unat ?c < 2 ^ LENGTH(32)" by simp
  then show "unat (framesRead + ?c) = unat framesRead + unat ?c"
    by (simp only: unat_add_lem)
qed

subsection \<open>The copy loop (lines 1024 to 1035) and the operation\<close>

text \<open>
  The loop of \<open>RightMic_DoIOOperation\<close>. The destination offset \<open>framesRead * 2\<close> and the
  length \<open>chunk * 8\<close> are computed in 32 bits as in the source, the source offset
  \<open>ringIndex * 2\<close> in 64 bits.
\<close>

function copy_loop ::
  "UInt64 \<Rightarrow> UInt32 \<Rightarrow> sample list \<Rightarrow> UInt32 \<Rightarrow> io_buffer \<Rightarrow> io_buffer option" where
  "copy_loop rHead framesToFill data framesRead io =
     (if framesRead < framesToFill then
        (case memcpy (outBuffer io)
                (unat (framesRead * word_of_nat kRightMic_ChannelCount))
                data
                (unat (ringIndex_of rHead framesRead * word_of_nat kRightMic_ChannelCount))
                (unat (chunk_of rHead framesToFill framesRead * word_of_nat kRightMic_BytesPerFrame))
         of None \<Rightarrow> None
          | Some buf \<Rightarrow>
              copy_loop rHead framesToFill data
                (framesRead + chunk_of rHead framesToFill framesRead)
                \<lparr> outBuffer = buf,
                  copies = copies io @
                    [(unat (framesRead * word_of_nat kRightMic_ChannelCount),
                      unat (ringIndex_of rHead framesRead * word_of_nat kRightMic_ChannelCount),
                      unat (chunk_of rHead framesToFill framesRead
                            * word_of_nat kRightMic_BytesPerFrame))] \<rparr>)
      else Some io)"
  by pat_completeness auto
termination
proof (relation "measure (\<lambda>(rHead, framesToFill, data, framesRead, io).
                   unat framesToFill - unat framesRead)")
  show "wf (measure (\<lambda>(rHead, framesToFill, data, framesRead, io).
                   unat framesToFill - unat framesRead))"
    by simp
next
  fix rHead :: UInt64 and framesToFill framesRead :: UInt32
    and data :: "sample list" and io :: io_buffer and x2 :: "sample list"
  assume lt: "framesRead < framesToFill"
  from chunk_of_advances [OF lt, of rHead]
  show "((rHead, framesToFill, data, framesRead + chunk_of rHead framesToFill framesRead,
          \<lparr> outBuffer = x2,
            copies = copies io @
              [(unat (framesRead * word_of_nat kRightMic_ChannelCount),
                unat (ringIndex_of rHead framesRead * word_of_nat kRightMic_ChannelCount),
                unat (chunk_of rHead framesToFill framesRead
                      * word_of_nat kRightMic_BytesPerFrame))] \<rparr>),
         (rHead, framesToFill, data, framesRead, io))
        \<in> measure (\<lambda>(rHead, framesToFill, data, framesRead, io).
                   unat framesToFill - unat framesRead)"
    by simp
qed

declare copy_loop.simps [simp del]

text \<open>The silence path (line 1045): \<open>samplesToFill * sizeof(float)\<close> bytes are cleared.\<close>

definition fill_silence :: "UInt32 \<Rightarrow> sample list \<Rightarrow> io_buffer option" where
  "fill_silence samplesToFill buf =
     (case memset_zero buf (unat samplesToFill * 4) of
        None \<Rightarrow> None
      | Some b \<Rightarrow> Some \<lparr> outBuffer = b, copies = [] \<rparr>)"

text \<open>What \<open>sRingData\<close> points at: the data of the region, or nothing when it is \<open>NULL\<close>.\<close>

definition ring_source :: "driver \<Rightarrow> world \<Rightarrow> sample list" where
  "ring_source s w =
     (case sRingData s of NULL \<Rightarrow> [] | IN_REGION pr \<Rightarrow> ringData (region w))"

text \<open>Lines 1012 to 1014: the lazy attempt to map the region again.\<close>

definition reopen_if_unmapped :: "driver \<Rightarrow> world \<Rightarrow> driver \<times> world" where
  "reopen_if_unmapped s w =
     (if sShm_Ptr s = MAP_FAILED then RightMic_OpenSharedMemory s w else (s, w))"

text \<open>
  A call that does not return. An access outside an array has no defined behaviour in C,
  and nothing more is said of it. A store through a pointer into pages that were mapped
  without write permission is refused by the operating system: it raises the signal
  \<open>SIGSEGV\<close>, which the driver does not handle, so the call ends at the store with the
  globals, the environment and the buffer as they are at that moment.
\<close>

datatype io_fault = OutOfBounds | ProtectionFault driver world io_buffer

text \<open>
  Line 1038: the store of a new \<open>readHead\<close> through \<open>sRingHeader\<close>. It changes the header
  when the pages are writable and is refused otherwise.
\<close>

definition store_readHead :: "region_ptr \<Rightarrow> UInt64 \<Rightarrow> shm_region \<Rightarrow> shm_region option" where
  "store_readHead p v r =
     (case p of
        NULL \<Rightarrow> None
      | IN_REGION PROT_READ \<Rightarrow> None
      | IN_REGION PROT_READ_WRITE \<Rightarrow> Some (r\<lparr> header := (header r)\<lparr> readHead := v \<rparr> \<rparr>))"

text \<open>
  \<open>RightMic_DoIOOperation\<close>, with the arguments the body uses: the operation, the frame
  count and the main buffer. The atomic loads and the store are modelled as plain reads
  and a plain write of the header: one call runs without interference. A call that
  returns gives the status, the driver's globals, the environment and the buffer.
\<close>

type_synonym io_result = "io_fault + (OSStatus \<times> driver \<times> world \<times> io_buffer)"

definition RightMic_DoIOOperation ::
  "UInt32 \<Rightarrow> UInt32 \<Rightarrow> sample list \<Rightarrow> driver \<Rightarrow> world \<Rightarrow> io_result" where
  "RightMic_DoIOOperation inOperationID inIOBufferFrameSize ioMainBuffer s w =
     (if inOperationID \<noteq> kAudioServerPlugInIOOperationReadInput
      then Inr (kAudioHardwareNoError, s, w, \<lparr> outBuffer = ioMainBuffer, copies = [] \<rparr>)
      else
        let framesToFill = inIOBufferFrameSize;
            samplesToFill = framesToFill * word_of_nat kRightMic_ChannelCount;
            (s1, w1) = reopen_if_unmapped s w;
            hdr = header (region w1);
            wHead = writeHead hdr;
            rHead = readHead hdr;
            silence = (case fill_silence samplesToFill ioMainBuffer of
                         None \<Rightarrow> Inl OutOfBounds
                       | Some io \<Rightarrow> Inr (kAudioHardwareNoError, s1, w1, io))
        in if sRingHeader s1 \<noteq> NULL \<and> active hdr \<noteq> 0 then
             if available_frames wHead rHead \<ge> ucast framesToFill then
               (case copy_loop rHead framesToFill (ring_source s1 w1) 0
                       \<lparr> outBuffer = ioMainBuffer, copies = [] \<rparr> of
                  None \<Rightarrow> Inl OutOfBounds
                | Some io \<Rightarrow>
                    (case store_readHead (sRingHeader s1) (rHead + ucast framesToFill)
                            (region w1) of
                       None \<Rightarrow> Inl (ProtectionFault s1 w1 io)
                     | Some r \<Rightarrow> Inr (kAudioHardwareNoError, s1, w1\<lparr> region := r \<rparr>, io)))
             else silence
           else silence)"

text \<open>
  What a call leaves behind, whether it returned or was stopped at a store: the globals,
  the environment and the buffer.
\<close>

fun left_behind :: "io_result \<Rightarrow> (driver \<times> world \<times> io_buffer) option" where
  "left_behind (Inr (st, s, w, io)) = Some (s, w, io)"
| "left_behind (Inl (ProtectionFault s w io)) = Some (s, w, io)"
| "left_behind (Inl OutOfBounds) = None"

text \<open>\<open>RightMic_WillDoIOOperation\<close>: the status, \<open>outWillDo\<close> and \<open>outWillDoInPlace\<close>.\<close>

definition RightMic_WillDoIOOperation :: "UInt32 \<Rightarrow> OSStatus \<times> bool \<times> bool" where
  "RightMic_WillDoIOOperation inOperationID =
     (if inOperationID = kAudioServerPlugInIOOperationReadInput
      then (kAudioHardwareNoError, True, True)
      else (kAudioHardwareNoError, False, True))"

subsection \<open>The ring seen as frames\<close>

text \<open>
  The frame in slot \<open>j\<close> of the data, and the frames at the positions \<open>p\<close>, ...,
  \<open>p + n - 1\<close> of the circular buffer, interleaved as they lie in memory.
\<close>

definition frame_at :: "sample list \<Rightarrow> nat \<Rightarrow> sample list" where
  "frame_at data j = take kRightMic_ChannelCount (drop (kRightMic_ChannelCount * j) data)"

definition ring_frames :: "sample list \<Rightarrow> nat \<Rightarrow> nat \<Rightarrow> sample list" where
  "ring_frames data p n =
     concat (map (\<lambda>i. frame_at data ((p + i) mod kRightMic_RingBufferFrames)) [0..<n])"

lemma ring_frames_0 [simp]: "ring_frames data p 0 = []"
  by (simp add: ring_frames_def)

lemma ring_frames_Suc:
  "ring_frames data p (Suc n) = ring_frames data p n @ frame_at data ((p + n) mod 16384)"
  by (simp add: ring_frames_def kRightMic_RingBufferFrames_def)

lemma ring_frames_add:
  "ring_frames data p (a + b) = ring_frames data p a @ ring_frames data (p + a) b"
proof (induction b)
  case 0
  show ?case by simp
next
  case (Suc b)
  have "ring_frames data p (a + Suc b) = ring_frames data p (Suc (a + b))" by simp
  also have "\<dots> = ring_frames data p (a + b) @ frame_at data ((p + (a + b)) mod 16384)"
    by (rule ring_frames_Suc)
  finally show ?case
    by (simp add: Suc.IH ring_frames_Suc add.assoc)
qed

lemma length_frame_at:
  "2 * j + 2 \<le> length data \<Longrightarrow> length (frame_at data j) = 2"
  by (simp add: frame_at_def kRightMic_ChannelCount_def)

lemma length_ring_frames:
  "length data = 32768 \<Longrightarrow> length (ring_frames data p n) = 2 * n"
proof (induction n)
  case 0
  show ?case by simp
next
  case (Suc n)
  have "(p + n) mod 16384 < 16384" by simp
  then have "2 * ((p + n) mod 16384) + 2 \<le> length data"
    using Suc.prems by linarith
  then show ?case
    using Suc by (simp add: ring_frames_Suc length_frame_at)
qed

text \<open>A run of frames that does not cross the end of the data is one contiguous slice.\<close>

lemma contiguous_slice:
  "p mod 16384 + c \<le> 16384 \<Longrightarrow>
   take (2 * c) (drop (2 * (p mod 16384)) data) = ring_frames data p c"
proof (induction c)
  case 0
  show ?case by simp
next
  case (Suc c)
  have lt: "p mod 16384 + c < 16384" using Suc.prems by simp
  have idx: "(p + c) mod 16384 = p mod 16384 + c"
    using lt by (metis mod_add_left_eq mod_less)
  have "take (2 * Suc c) (drop (2 * (p mod 16384)) data)
        = take (2 * c + 2) (drop (2 * (p mod 16384)) data)" by simp
  also have "\<dots> = take (2 * c) (drop (2 * (p mod 16384)) data)
                 @ take 2 (drop (2 * c) (drop (2 * (p mod 16384)) data))"
    by (rule take_add)
  also have "\<dots> = ring_frames data p c @ frame_at data ((p + c) mod 16384)"
  proof -
    have "2 * c + 2 * (p mod 16384) = 2 * ((p + c) mod 16384)"
      by (simp add: idx)
    then show ?thesis
      using Suc.prems by (simp add: Suc.IH frame_at_def kRightMic_ChannelCount_def)
  qed
  finally show ?case by (simp add: ring_frames_Suc)
qed


lemma channels32: "(word_of_nat kRightMic_ChannelCount :: UInt32) = 2"
  by (simp add: kRightMic_ChannelCount_def)

lemma channels64: "(word_of_nat kRightMic_ChannelCount :: UInt64) = 2"
  by (simp add: kRightMic_ChannelCount_def)

lemma bytes_per_frame32: "(word_of_nat kRightMic_BytesPerFrame :: UInt32) = 8"
  by (simp add: kRightMic_BytesPerFrame_def kRightMic_ChannelCount_def
      kRightMic_BitsPerChannel_def)

lemma dst_offset_le: "unat (framesRead * 2 :: UInt32) \<le> 2 * unat framesRead"
  by (simp add: unat_word_ariths mult.commute)

lemma dst_offset_exact:
  "unat framesRead < 2 ^ 31 \<Longrightarrow> unat (framesRead * 2 :: UInt32) = 2 * unat framesRead"
  by (simp add: unat_word_ariths mult.commute)

lemma src_offset_exact:
  "unat (ringIndex_of rHead framesRead * 2)
   = 2 * ((unat rHead + unat framesRead) mod 16384)"
proof -
  have "(unat rHead + unat framesRead) mod 16384 < 16384" by simp
  then have "(unat rHead + unat framesRead) mod 16384 * 2 < 2 ^ 64" by simp
  then show ?thesis
    by (simp add: unat_word_ariths ringIndex_of_unat mult.commute)
qed

lemma chunk_bytes_exact:
  assumes "framesRead < framesToFill"
  shows "unat (chunk_of rHead framesToFill framesRead * 8) div 4
         = 2 * unat (chunk_of rHead framesToFill framesRead)"
proof -
  have "unat (chunk_of rHead framesToFill framesRead) \<le> 16384"
    by (simp add: chunk_of_unat [OF assms])
  then have "unat (chunk_of rHead framesToFill framesRead) * 8 < 2 ^ 32" by simp
  then have "unat (chunk_of rHead framesToFill framesRead * 8)
             = unat (chunk_of rHead framesToFill framesRead) * 8"
    by (simp add: unat_word_ariths)
  then show ?thesis by simp
qed

lemma chunk_fits_ring:
  assumes "framesRead < framesToFill"
  shows "(unat rHead + unat framesRead) mod 16384
           + unat (chunk_of rHead framesToFill framesRead) \<le> 16384"
  by (simp add: chunk_of_unat [OF assms])

lemma memcpy_in_range:
  assumes "nbytes div 4 = n" and "doff + n \<le> length dst" and "soff + n \<le> length src"
  shows "memcpy dst doff src soff nbytes
         = Some (take doff dst @ take n (drop soff src) @ drop (doff + n) dst)"
    and "length (take doff dst @ take n (drop soff src) @ drop (doff + n) dst) = length dst"
  using assms by (auto simp: memcpy_def Let_def)

lemma copy_loop_total:
  assumes "length data = 32768" and "length (outBuffer io) = 2 * unat framesToFill"
  shows "\<exists>io'. copy_loop rHead framesToFill data framesRead io = Some io'
               \<and> length (outBuffer io') = 2 * unat framesToFill"
  using assms
proof (induction rHead framesToFill data framesRead io rule: copy_loop.induct)
  case (1 rHead framesToFill data framesRead io)
  show ?case
  proof (cases "framesRead < framesToFill")
    case False
    then show ?thesis
      using "1.prems" by (simp add: copy_loop.simps)
  next
    case True
    let ?c = "chunk_of rHead framesToFill framesRead"
    let ?doff = "unat (framesRead * 2)"
    let ?soff = "unat (ringIndex_of rHead framesRead * 2)"
    have d: "?doff + 2 * unat ?c \<le> length (outBuffer io)"
      using chunk_of_advances(3) [OF True, of rHead] dst_offset_le [of framesRead] "1.prems"
      by simp
    have s: "?soff + 2 * unat ?c \<le> length data"
      using chunk_fits_ring [OF True, of rHead] "1.prems"
      by (simp add: src_offset_exact)
    obtain buf where m: "memcpy (outBuffer io) ?doff data ?soff (unat (?c * 8)) = Some buf"
      and l: "length buf = 2 * unat framesToFill"
      using memcpy_in_range [OF chunk_bytes_exact [OF True] d s] "1.prems" by simp
    show ?thesis
      using "1.IH" [OF True, of buf] m l "1.prems" True
      by (subst copy_loop.simps) (simp add: channels32 channels64 bytes_per_frame32)
  qed
qed


lemma copy_loop_frames:
  assumes "length data = 32768" and "length (outBuffer io) = 2 * unat framesToFill"
    and "unat framesToFill < 2 ^ 31" and "framesRead \<le> framesToFill"
  shows "\<exists>io'. copy_loop rHead framesToFill data framesRead io = Some io'
               \<and> outBuffer io' = take (2 * unat framesRead) (outBuffer io)
                    @ ring_frames data (unat rHead + unat framesRead)
                        (unat framesToFill - unat framesRead)"
  using assms
proof (induction rHead framesToFill data framesRead io rule: copy_loop.induct)
  case (1 rHead framesToFill data framesRead io)
  show ?case
  proof (cases "framesRead < framesToFill")
    case False
    with "1.prems"(4) have "framesRead = framesToFill" by simp
    then show ?thesis
      using "1.prems" by (simp add: copy_loop.simps)
  next
    case True
    let ?c = "chunk_of rHead framesToFill framesRead"
    let ?p = "unat rHead + unat framesRead"
    let ?soff = "unat (ringIndex_of rHead framesRead * 2)"
    let ?out = "outBuffer io"
    note adv = chunk_of_advances [OF True, of rHead]
    have fr: "unat framesRead < 2 ^ 31"
      using True "1.prems"(3) by (simp add: word_less_nat_alt)
    have doff: "unat (framesRead * 2) = 2 * unat framesRead"
      by (rule dst_offset_exact [OF fr])
    have d: "2 * unat framesRead + 2 * unat ?c \<le> length ?out"
      using adv(3) "1.prems" by simp
    have s: "?soff + 2 * unat ?c \<le> length data"
      using chunk_fits_ring [OF True, of rHead] "1.prems"
      by (simp add: src_offset_exact)
    define buf where "buf = take (2 * unat framesRead) ?out
                             @ take (2 * unat ?c) (drop ?soff data)
                             @ drop (2 * unat framesRead + 2 * unat ?c) ?out"
    have m: "memcpy ?out (unat (framesRead * 2)) data ?soff (unat (?c * 8)) = Some buf"
      unfolding buf_def doff
      by (rule memcpy_in_range(1) [OF chunk_bytes_exact [OF True] d s])
    have l: "length buf = 2 * unat framesToFill"
      unfolding buf_def
      using memcpy_in_range(2) [OF chunk_bytes_exact [OF True] d s] "1.prems" by simp
    have le: "framesRead + ?c \<le> framesToFill"
      using adv by (simp add: word_le_nat_alt)
    have mid: "take (2 * unat ?c) (drop ?soff data) = ring_frames data ?p (unat ?c)"
      using contiguous_slice [OF chunk_fits_ring [OF True, of rHead], of data]
      by (simp add: src_offset_exact)
    have lmid: "length (ring_frames data ?p (unat ?c)) = 2 * unat ?c"
      by (rule length_ring_frames [OF "1.prems"(1)])
    have ltake: "length (take (2 * unat framesRead) ?out) = 2 * unat framesRead"
      using d by simp
    have front: "take (2 * unat framesRead + 2 * unat ?c) buf
                 = take (2 * unat framesRead) ?out @ ring_frames data ?p (unat ?c)"
      unfolding buf_def mid
      using ltake lmid by simp
    let ?io1 = "\<lparr> outBuffer = buf,
                  copies = copies io @ [(unat (framesRead * 2), ?soff, unat (?c * 8))] \<rparr>"
    from "1.IH" [OF True, of buf] m l "1.prems"(1,3) le
    obtain io' where r: "copy_loop rHead framesToFill data (framesRead + ?c) ?io1 = Some io'"
      and o: "outBuffer io' = take (2 * unat (framesRead + ?c)) buf
                @ ring_frames data (unat rHead + unat (framesRead + ?c))
                    (unat framesToFill - unat (framesRead + ?c))"
      by (auto simp: channels32 channels64 bytes_per_frame32)
    have split: "ring_frames data ?p (unat framesToFill - unat framesRead)
                 = ring_frames data ?p (unat ?c)
                   @ ring_frames data (?p + unat ?c) (unat framesToFill - unat framesRead - unat ?c)"
      using ring_frames_add [of data ?p "unat ?c" "unat framesToFill - unat framesRead - unat ?c"]
        adv(3) by simp
    have "copy_loop rHead framesToFill data framesRead io = Some io'"
      using True m r
      by (subst copy_loop.simps) (simp add: channels32 channels64 bytes_per_frame32)
    moreover have "outBuffer io' = take (2 * unat framesRead) ?out
                    @ ring_frames data ?p (unat framesToFill - unat framesRead)"
      unfolding o split adv(2) distrib_left front by (simp add: add.assoc)
    ultimately show ?thesis by blast
  qed
qed

subsection \<open>The copies a read makes\<close>

text \<open>
  The \<open>memcpy\<close> calls of the loop depend on the counters only, not on the data: they are
  the calls of the same loop run without buffers.
\<close>

function chunk_plan :: "UInt64 \<Rightarrow> UInt32 \<Rightarrow> UInt32 \<Rightarrow> (nat \<times> nat \<times> nat) list" where
  "chunk_plan rHead framesToFill framesRead =
     (if framesRead < framesToFill then
        (unat (framesRead * word_of_nat kRightMic_ChannelCount),
         unat (ringIndex_of rHead framesRead * word_of_nat kRightMic_ChannelCount),
         unat (chunk_of rHead framesToFill framesRead * word_of_nat kRightMic_BytesPerFrame))
        # chunk_plan rHead framesToFill (framesRead + chunk_of rHead framesToFill framesRead)
      else [])"
  by pat_completeness auto
termination
proof (relation "measure (\<lambda>(rHead, framesToFill, framesRead).
                   unat framesToFill - unat framesRead)")
  show "wf (measure (\<lambda>(rHead, framesToFill, framesRead).
                   unat framesToFill - unat framesRead))"
    by simp
next
  fix rHead :: UInt64 and framesToFill framesRead :: UInt32
  assume lt: "framesRead < framesToFill"
  from chunk_of_advances [OF lt, of rHead]
  show "((rHead, framesToFill, framesRead + chunk_of rHead framesToFill framesRead),
         (rHead, framesToFill, framesRead))
        \<in> measure (\<lambda>(rHead, framesToFill, framesRead).
                   unat framesToFill - unat framesRead)"
    by simp
qed

declare chunk_plan.simps [simp del]

lemma copy_loop_copies:
  "copy_loop rHead framesToFill data framesRead io = Some io' \<Longrightarrow>
   copies io' = copies io @ chunk_plan rHead framesToFill framesRead"
proof (induction rHead framesToFill data framesRead io rule: copy_loop.induct)
  case (1 rHead framesToFill data framesRead io)
  show ?case
  proof (cases "framesRead < framesToFill")
    case False
    then show ?thesis
      using "1.prems" by (simp add: copy_loop.simps chunk_plan.simps)
  next
    case True
    let ?d = "unat (framesRead * word_of_nat kRightMic_ChannelCount)"
    let ?s = "unat (ringIndex_of rHead framesRead * word_of_nat kRightMic_ChannelCount)"
    let ?n = "unat (chunk_of rHead framesToFill framesRead * word_of_nat kRightMic_BytesPerFrame)"
    from "1.prems" True obtain buf where m: "memcpy (outBuffer io) ?d data ?s ?n = Some buf"
      and r: "copy_loop rHead framesToFill data
                (framesRead + chunk_of rHead framesToFill framesRead)
                \<lparr> outBuffer = buf, copies = copies io @ [(?d, ?s, ?n)] \<rparr> = Some io'"
      by (subst (asm) copy_loop.simps) (auto split: option.splits)
    from "1.IH" [OF True m r]
    have "copies io' = (copies io @ [(?d, ?s, ?n)])
            @ chunk_plan rHead framesToFill (framesRead + chunk_of rHead framesToFill framesRead)"
      by simp
    then show ?thesis
      using True by (subst chunk_plan.simps) simp
  qed
qed

text \<open>
  A request that fits before the end of the data is one copy; a request of at most the
  capacity that crosses the end is two: up to the end, then the rest from offset 0.
\<close>

lemma word_eq_unatI: "unat (a :: 'a::len word) = unat b \<Longrightarrow> a = b"
  by (simp add: word_unat_eq_iff)

lemma chunk_plan_single:
  assumes "0 < unat framesToFill"
    and "unat rHead mod 16384 + unat framesToFill \<le> 16384"
  shows "chunk_plan rHead framesToFill 0
         = [(0, 2 * (unat rHead mod 16384), 8 * unat framesToFill)]"
proof -
  have lt: "0 < framesToFill" using assms(1) by (simp add: word_less_nat_alt)
  have "unat (chunk_of rHead framesToFill 0) = unat framesToFill"
    using assms(2) by (simp add: chunk_of_unat [OF lt])
  then have c: "chunk_of rHead framesToFill 0 = framesToFill" by (rule word_eq_unatI)
  have "unat framesToFill * 8 < 2 ^ 32" using assms(2) by simp
  then have b: "unat (framesToFill * 8) = 8 * unat framesToFill"
    by (simp add: unat_word_ariths)
  have s: "unat (ringIndex_of rHead 0 * 2) = 2 * (unat rHead mod 16384)"
    using src_offset_exact [of rHead 0] by simp
  have e: "chunk_plan rHead framesToFill framesToFill = []"
    by (subst chunk_plan.simps) simp
  show ?thesis
    using lt by (subst chunk_plan.simps) (simp add: c b s e channels32 channels64 bytes_per_frame32)
qed

lemma mod_complement:
  assumes "0 < (n :: nat)"
  shows "(r + (n - r mod n)) mod n = 0"
proof -
  have le: "r mod n \<le> n" using assms by (simp add: less_imp_le)
  have "(r + (n - r mod n)) mod n = (r mod n + (n - r mod n)) mod n"
    by (rule mod_add_left_eq [symmetric])
  also have "r mod n + (n - r mod n) = n" using le by simp
  finally show ?thesis by simp
qed

lemma chunk_plan_wrapped:
  assumes "16384 < unat rHead mod 16384 + unat framesToFill"
    and "unat framesToFill \<le> 16384"
  shows "chunk_plan rHead framesToFill 0
         = [(0, 2 * (unat rHead mod 16384), 8 * (16384 - unat rHead mod 16384)),
            (2 * (16384 - unat rHead mod 16384), 0,
             8 * (unat framesToFill - (16384 - unat rHead mod 16384)))]"
proof -
  let ?idx = "unat rHead mod 16384"
  let ?c1 = "chunk_of rHead framesToFill 0"
  have idx: "?idx < 16384" by simp
  have lt: "0 < framesToFill" using assms(1) idx by (simp add: word_less_nat_alt)
  have c1: "unat ?c1 = 16384 - ?idx"
    using assms(1) by (simp add: chunk_of_unat [OF lt])
  have lt2: "?c1 < framesToFill"
    using assms(1) c1 by (simp add: word_less_nat_alt)
  have "(unat rHead + (16384 - ?idx)) mod 16384 = 0"
    by (rule mod_complement) simp
  then have i2: "(unat rHead + unat ?c1) mod 16384 = 0" by (simp add: c1)
  have "unat (chunk_of rHead framesToFill ?c1)
        = min (unat framesToFill - unat ?c1) (16384 - (unat rHead + unat ?c1) mod 16384)"
    by (rule chunk_of_unat [OF lt2])
  also have "\<dots> = min (unat framesToFill - unat ?c1) 16384"
    by (simp only: i2 diff_zero)
  also have "\<dots> = unat framesToFill - (16384 - ?idx)"
    using assms(2) by (simp add: c1)
  finally have c2: "unat (chunk_of rHead framesToFill ?c1) = unat framesToFill - (16384 - ?idx)" .
  have sum: "unat (?c1 + chunk_of rHead framesToFill ?c1) = unat framesToFill"
    using chunk_of_advances(2) [OF lt2, of rHead] c1 c2 assms(1) by simp
  then have fin: "?c1 + chunk_of rHead framesToFill ?c1 = framesToFill"
    by (rule word_eq_unatI)
  have e: "chunk_plan rHead framesToFill framesToFill = []"
    by (subst chunk_plan.simps) simp
  have b1: "unat (?c1 * 8) = 8 * (16384 - ?idx)"
    by (simp add: unat_word_ariths c1)
  have b2: "unat (chunk_of rHead framesToFill ?c1 * 8) = 8 * (unat framesToFill - (16384 - ?idx))"
    using assms(2) by (simp add: unat_word_ariths c2)
  have d2: "unat (?c1 * 2) = 2 * (16384 - ?idx)"
    by (simp add: unat_word_ariths c1)
  have s1: "unat (ringIndex_of rHead 0 * 2) = 2 * ?idx"
    using src_offset_exact [of rHead 0] by simp
  have s2: "unat (ringIndex_of rHead ?c1 * 2) = 0"
    using src_offset_exact [of rHead ?c1] by (simp add: i2)
  have step2: "chunk_plan rHead framesToFill ?c1
               = [(2 * (16384 - ?idx), 0, 8 * (unat framesToFill - (16384 - ?idx)))]"
    using lt2
    by (subst chunk_plan.simps)
       (simp add: fin e b2 d2 s2 channels32 channels64 bytes_per_frame32)
  show ?thesis
    using lt
    by (subst chunk_plan.simps)
       (simp add: step2 b1 s1 channels32 channels64 bytes_per_frame32)
qed

subsection \<open>The two outcomes of a read\<close>

text \<open>
  The pointers of the driver are set and cleared together, and when set they point into
  pages mapped \<open>PROT_READ\<close>, the only mapping the driver makes; every operation keeps
  this.
\<close>

definition pointers_consistent :: "driver \<Rightarrow> bool" where
  "pointers_consistent s \<longleftrightarrow>
     (sShm_Ptr s = MAP_FAILED \<and> sRingHeader s = NULL \<and> sRingData s = NULL)
     \<or> (sShm_Ptr s = MAPPED PROT_READ \<and> sRingHeader s = IN_REGION PROT_READ
         \<and> sRingData s = IN_REGION PROT_READ)"

lemma pointers_consistent_init: "pointers_consistent driver_init"
  by (simp add: pointers_consistent_def driver_init_def)

lemma OpenSharedMemory_consistent:
  "pointers_consistent s \<Longrightarrow> pointers_consistent (fst (RightMic_OpenSharedMemory s w))"
  by (auto simp: pointers_consistent_def RightMic_OpenSharedMemory_def Let_def)

lemma CloseSharedMemory_consistent:
  "pointers_consistent (fst (RightMic_CloseSharedMemory s w))"
  by (auto simp: pointers_consistent_def RightMic_CloseSharedMemory_def Let_def
      split: prod.splits)

lemma OpenSharedMemory_region:
  "region (snd (RightMic_OpenSharedMemory s w)) = region w"
  by (simp add: RightMic_OpenSharedMemory_def Let_def)

lemma reopen_region: "reopen_if_unmapped s w = (s1, w1) \<Longrightarrow> region w1 = region w"
  using OpenSharedMemory_region [of s w]
  by (auto simp: reopen_if_unmapped_def split: if_splits)

lemma reopen_consistent:
  "reopen_if_unmapped s w = (s1, w1) \<Longrightarrow> pointers_consistent s \<Longrightarrow> pointers_consistent s1"
  using OpenSharedMemory_consistent [of s w]
  by (auto simp: reopen_if_unmapped_def split: if_splits)

lemma fill_silence_zeroes:
  assumes "unat framesToFill < 2 ^ 31" and "length buf = 2 * unat framesToFill"
  shows "fill_silence (framesToFill * word_of_nat kRightMic_ChannelCount) buf
         = Some \<lparr> outBuffer = replicate (2 * unat framesToFill) 0, copies = [] \<rparr>"
  using assms
  by (simp add: fill_silence_def memset_zero_def channels32 dst_offset_exact)

lemma DoIOOperation_silence:
  assumes re: "reopen_if_unmapped s w = (s1, w1)"
    and quiet: "sRingHeader s1 = NULL \<or> active (header (region w1)) = 0
       \<or> available_frames (writeHead (header (region w1))) (readHead (header (region w1)))
            < ucast framesToFill"
    and small: "unat framesToFill < 2 ^ 31"
    and len: "length buf = 2 * unat framesToFill"
  shows "RightMic_DoIOOperation kAudioServerPlugInIOOperationReadInput framesToFill buf s w
         = Inr (kAudioHardwareNoError, s1, w1,
                \<lparr> outBuffer = replicate (2 * unat framesToFill) 0, copies = [] \<rparr>)"
  using quiet
  by (auto simp: RightMic_DoIOOperation_def Let_def re fill_silence_zeroes [OF small len]
      not_le [symmetric])

text \<open>
  A read that finds the region mapped, the writer active and enough frames runs the copy
  loop and reaches the store of line 1038. The pages are mapped \<open>PROT_READ\<close>, so the call
  ends there: the shared region is as before, and the frames copied lie in a buffer that
  is never handed back.
\<close>

lemma store_readHead_refused [simp]: "store_readHead (IN_REGION PROT_READ) v r = None"
  by (simp add: store_readHead_def)

lemma DoIOOperation_reaches_store:
  assumes re: "reopen_if_unmapped s w = (s1, w1)"
    and ptr: "sRingHeader s1 = IN_REGION PROT_READ" "sRingData s1 = IN_REGION PROT_READ"
    and act: "active (header (region w1)) \<noteq> 0"
    and av: "ucast framesToFill
              \<le> available_frames (writeHead (header (region w1))) (readHead (header (region w1)))"
    and loop: "copy_loop (readHead (header (region w1))) framesToFill (ringData (region w1)) 0
                 \<lparr> outBuffer = buf, copies = [] \<rparr> = Some io"
  shows "RightMic_DoIOOperation kAudioServerPlugInIOOperationReadInput framesToFill buf s w
         = Inl (ProtectionFault s1 w1 io)"
  using ptr act av loop
  by (simp add: RightMic_DoIOOperation_def Let_def re ring_source_def)

lemma DoIOOperation_stops:
  assumes re: "reopen_if_unmapped s w = (s1, w1)"
    and ptr: "sRingHeader s1 = IN_REGION PROT_READ" "sRingData s1 = IN_REGION PROT_READ"
    and act: "active (header (region w1)) \<noteq> 0"
    and av: "ucast framesToFill
              \<le> available_frames (writeHead (header (region w1))) (readHead (header (region w1)))"
    and sized: "region_sized (region w1)"
    and len: "length buf = 2 * unat framesToFill"
  shows "\<exists>io. RightMic_DoIOOperation kAudioServerPlugInIOOperationReadInput framesToFill buf s w
           = Inl (ProtectionFault s1 w1 io)"
proof -
  have l: "length (ringData (region w1)) = 32768"
    using sized by (simp add: region_sized_def kRightMic_RingBufferFrames_def
        kRightMic_ChannelCount_def)
  from copy_loop_total [OF l, of "\<lparr> outBuffer = buf, copies = [] \<rparr>" framesToFill
      "readHead (header (region w1))" 0] len
  obtain io where "copy_loop (readHead (header (region w1))) framesToFill
                     (ringData (region w1)) 0 \<lparr> outBuffer = buf, copies = [] \<rparr> = Some io"
    by auto
  from DoIOOperation_reaches_store [OF re ptr act av this] show ?thesis by blast
qed

lemma DoIOOperation_frames:
  assumes re: "reopen_if_unmapped s w = (s1, w1)"
    and ptr: "sRingHeader s1 = IN_REGION PROT_READ" "sRingData s1 = IN_REGION PROT_READ"
    and act: "active (header (region w1)) \<noteq> 0"
    and av: "ucast framesToFill
              \<le> available_frames (writeHead (header (region w1))) (readHead (header (region w1)))"
    and sized: "region_sized (region w1)"
    and small: "unat framesToFill < 2 ^ 31"
    and len: "length buf = 2 * unat framesToFill"
  shows "RightMic_DoIOOperation kAudioServerPlugInIOOperationReadInput framesToFill buf s w
         = Inl (ProtectionFault s1 w1
                  \<lparr> outBuffer = ring_frames (ringData (region w1))
                                  (unat (readHead (header (region w1)))) (unat framesToFill),
                    copies = chunk_plan (readHead (header (region w1))) framesToFill 0 \<rparr>)"
proof -
  let ?data = "ringData (region w1)"
  let ?io0 = "\<lparr> outBuffer = buf, copies = [] \<rparr>"
  have l: "length ?data = 32768"
    using sized by (simp add: region_sized_def kRightMic_RingBufferFrames_def
        kRightMic_ChannelCount_def)
  from copy_loop_frames [of ?data ?io0 framesToFill 0 "readHead (header (region w1))"]
    l len small
  obtain io where c: "copy_loop (readHead (header (region w1))) framesToFill ?data 0 ?io0 = Some io"
    and o: "outBuffer io = ring_frames ?data (unat (readHead (header (region w1)))) (unat framesToFill)"
    by auto
  have p: "copies io = chunk_plan (readHead (header (region w1))) framesToFill 0"
    using copy_loop_copies [OF c] by simp
  have "io = \<lparr> outBuffer = ring_frames ?data (unat (readHead (header (region w1))))
                              (unat framesToFill),
                copies = chunk_plan (readHead (header (region w1))) framesToFill 0 \<rparr>"
    using o p by simp
  with DoIOOperation_reaches_store [OF re ptr act av c] show ?thesis by simp
qed

section \<open>The writer and whole sessions\<close>

type_synonym frame = "sample \<times> sample"

fun interleave :: "frame list \<Rightarrow> sample list" where
  "interleave [] = []"
| "interleave ((l, r) # fs) = l # r # interleave fs"

text \<open>
  Modelled from the spec: the publish of the writer, the companion application, whose
  code is not among the sources. Section 4.2 (write-side contract): the frames are copied
  into the data region at their modulo-addressed offsets, then the new \<open>writeHead\<close> is
  published. The frame counter of the writer is read as a natural number.
\<close>

fun write_frames :: "sample list \<Rightarrow> nat \<Rightarrow> frame list \<Rightarrow> sample list" where
  "write_frames data p [] = data"
| "write_frames data p ((l, r) # fs) =
     write_frames
       (data[2 * (p mod kRightMic_RingBufferFrames) := l,
             Suc (2 * (p mod kRightMic_RingBufferFrames)) := r])
       (Suc p) fs"

definition writer_publish :: "frame list \<Rightarrow> shm_region \<Rightarrow> shm_region" where
  "writer_publish fs r =
     r\<lparr> ringData := write_frames (ringData r) (unat (writeHead (header r))) fs,
        header := (header r)\<lparr> writeHead := writeHead (header r) + word_of_nat (length fs) \<rparr> \<rparr>"

text \<open>
  A session is a sequence of events: the writer publishes frames, or the host asks the
  driver to read a number of frames into a buffer of its own. A session that runs to its
  end gives the buffers the reads returned, in order; a read that does not return ends
  the session, since the driver does not handle the signal.
\<close>

datatype event = Publish "frame list" | Read UInt32 "sample list"

fun run :: "event list \<Rightarrow> driver \<Rightarrow> world \<Rightarrow> io_fault + (driver \<times> world \<times> sample list list)" where
  "run [] s w = Inr (s, w, [])"
| "run (Publish fs # es) s w = run es s (w\<lparr> region := writer_publish fs (region w) \<rparr>)"
| "run (Read k buf # es) s w =
     (case RightMic_DoIOOperation kAudioServerPlugInIOOperationReadInput k buf s w of
        Inl f \<Rightarrow> Inl f
      | Inr (st, s', w', io) \<Rightarrow>
          (case run es s' w' of
             Inl f \<Rightarrow> Inl f
           | Inr (s'', w'', outs) \<Rightarrow> Inr (s'', w'', outBuffer io # outs)))"

fun written :: "event list \<Rightarrow> nat" where
  "written [] = 0"
| "written (Publish fs # es) = length fs + written es"
| "written (Read k buf # es) = written es"

fun requested :: "event list \<Rightarrow> nat" where
  "requested [] = 0"
| "requested (Publish fs # es) = requested es"
| "requested (Read k buf # es) = unat k + requested es"

text \<open>
  The first read of a session, if there is one: the frames published before it and the
  number of frames it requests.
\<close>

fun first_read :: "event list \<Rightarrow> (frame list \<times> UInt32) option" where
  "first_read [] = None"
| "first_read (Publish fs # es) =
     (case first_read es of None \<Rightarrow> None | Some (q, k) \<Rightarrow> Some (fs @ q, k))"
| "first_read (Read k buf # es) = Some ([], k)"

fun host_buffer_ok :: "event \<Rightarrow> bool" where
  "host_buffer_ok (Publish fs) = True"
| "host_buffer_ok (Read k buf) = (length buf = kRightMic_ChannelCount * unat k)"

text \<open>
  The two conditions of the claim, at every moment of the session, that is after every
  prefix of the events: the frames written so far (with \<open>pending\<close> frames outstanding at
  the start) are at least the frames requested so far, and the frames outstanding never
  exceed the capacity of the ring.
\<close>

definition keeps_contract :: "nat \<Rightarrow> event list \<Rightarrow> bool" where
  "keeps_contract pending es \<longleftrightarrow>
     list_all (\<lambda>p. requested p \<le> pending + written p
                 \<and> pending + written p - requested p \<le> kRightMic_RingBufferFrames)
       (prefixes es)"

text \<open>The reader has the region mapped, or will map it at its first read.\<close>

definition reader_attached :: "driver \<Rightarrow> world \<Rightarrow> bool" where
  "reader_attached s w \<longleftrightarrow>
     (sShm_Ptr s = MAPPED PROT_READ \<and> sRingHeader s = IN_REGION PROT_READ
        \<and> sRingData s = IN_REGION PROT_READ)
     \<or> (sShm_Ptr s = MAP_FAILED \<and> shm_file_exists w \<and> mmap_succeeds w)"

lemma frame_at_nth:
  "2 * j + 2 \<le> length data \<Longrightarrow> frame_at data j = [data ! (2 * j), data ! Suc (2 * j)]"
proof -
  assume a: "2 * j + 2 \<le> length data"
  then have "take 2 (drop (2 * j) data) = [drop (2 * j) data ! 0, drop (2 * j) data ! 1]"
    by (intro nth_equalityI) (auto simp: less_Suc_eq numeral_2_eq_2)
  then show ?thesis
    using a by (simp add: frame_at_def kRightMic_ChannelCount_def)
qed

lemma frame_at_update_same:
  "2 * j + 2 \<le> length data \<Longrightarrow>
   frame_at (data[2 * j := l, Suc (2 * j) := r]) j = [l, r]"
  by (simp add: frame_at_nth)

lemma frame_at_update_other:
  "2 * j + 2 \<le> length data \<Longrightarrow> 2 * i + 2 \<le> length data \<Longrightarrow> i \<noteq> j \<Longrightarrow>
   frame_at (data[2 * j := l, Suc (2 * j) := r]) i = frame_at data i"
  by (simp add: frame_at_nth)

lemma ring_slots_distinct:
  assumes "i < n" and "n < 16384"
  shows "(q + i) mod 16384 \<noteq> (q + n) mod (16384::nat)"
proof
  assume "(q + i) mod 16384 = (q + n) mod (16384::nat)"
  then have "(q + n) mod 16384 = (q + i) mod (16384::nat)" by simp
  moreover have "q + i \<le> q + n" using assms by simp
  ultimately have "(16384::nat) dvd (q + n) - (q + i)"
    by (simp add: mod_eq_dvd_iff_nat)
  then have "(16384::nat) dvd n - i" by simp
  moreover have "0 < n - i" "n - i < 16384" using assms by simp_all
  ultimately show False by (meson dvd_imp_le not_le)
qed

lemma ring_frames_update_other:
  assumes "length data = 32768" and "n < 16384"
  shows "ring_frames (data[2 * ((q + n) mod 16384) := l, Suc (2 * ((q + n) mod 16384)) := r]) q n
         = ring_frames data q n"
proof -
  have "frame_at (data[2 * ((q + n) mod 16384) := l, Suc (2 * ((q + n) mod 16384)) := r])
          ((q + i) mod 16384) = frame_at data ((q + i) mod 16384)" if "i < n" for i
  proof (rule frame_at_update_other)
    have a: "(q + n) mod 16384 < 16384" and b: "(q + i) mod 16384 < 16384" by simp_all
    show "2 * ((q + n) mod 16384) + 2 \<le> length data" using a assms(1) by linarith
    show "2 * ((q + i) mod 16384) + 2 \<le> length data" using b assms(1) by linarith
    show "(q + i) mod 16384 \<noteq> (q + n) mod 16384"
      by (rule ring_slots_distinct [OF that assms(2)])
  qed
  then have "map (\<lambda>i. frame_at (data[2 * ((q + n) mod 16384) := l,
                                        Suc (2 * ((q + n) mod 16384)) := r])
                      ((q + i) mod 16384)) [0..<n]
             = map (\<lambda>i. frame_at data ((q + i) mod 16384)) [0..<n]"
    by (intro map_cong) simp_all
  then show ?thesis
    unfolding ring_frames_def kRightMic_RingBufferFrames_def by (rule arg_cong)
qed

lemma length_write_frames [simp]: "length (write_frames data p fs) = length data"
  by (induction data p fs rule: write_frames.induct) simp_all

lemma ring_frames_after_write:
  assumes "length data = 32768" and "n + length fs \<le> 16384"
  shows "ring_frames (write_frames data (q + n) fs) q (n + length fs)
         = ring_frames data q n @ interleave fs"
  using assms
proof (induction fs arbitrary: data n)
  case Nil
  show ?case by simp
next
  case (Cons f fs)
  obtain l r where f: "f = (l, r)" by (cases f)
  let ?j = "(q + n) mod 16384"
  let ?data' = "data[2 * ?j := l, Suc (2 * ?j) := r]"
  have n: "n < 16384" using Cons.prems by simp
  have j: "2 * ?j + 2 \<le> length data"
  proof -
    have "?j < 16384" by simp
    then show ?thesis using Cons.prems(1) by linarith
  qed
  have len: "length ?data' = 32768" using Cons.prems by simp
  have "ring_frames (write_frames data (q + n) (f # fs)) q (n + length (f # fs))
        = ring_frames (write_frames ?data' (q + Suc n) fs) q (Suc n + length fs)"
    by (simp add: f kRightMic_RingBufferFrames_def)
  also have "\<dots> = ring_frames ?data' q (Suc n) @ interleave fs"
    using Cons.IH [OF len, of "Suc n"] Cons.prems(2) by simp
  also have "ring_frames ?data' q (Suc n) = ring_frames ?data' q n @ frame_at ?data' ?j"
    by (rule ring_frames_Suc)
  also have "ring_frames ?data' q n = ring_frames data q n"
    by (rule ring_frames_update_other [OF Cons.prems(1) n])
  also have "frame_at ?data' ?j = [l, r]"
    by (rule frame_at_update_same [OF j])
  finally show ?case by (simp add: f)
qed

subsection \<open>The invariant of a session\<close>

text \<open>
  \<open>pending\<close> are the frames published and not yet read: they lie in the ring from
  \<open>readHead\<close> on, and the two counters differ by their number.
\<close>

definition session_inv :: "driver \<Rightarrow> world \<Rightarrow> frame list \<Rightarrow> bool" where
  "session_inv s w pending \<longleftrightarrow>
     reader_attached s w \<and> region_sized (region w)
     \<and> active (header (region w)) \<noteq> 0
     \<and> unat (writeHead (header (region w)))
         = unat (readHead (header (region w))) + length pending
     \<and> length pending \<le> kRightMic_RingBufferFrames
     \<and> ring_frames (ringData (region w)) (unat (readHead (header (region w)))) (length pending)
         = interleave pending"

lemma interleave_append: "interleave (a @ b) = interleave a @ interleave b"
  by (induction a rule: interleave.induct) simp_all

lemma interleave_take: "interleave (take n fs) = take (2 * n) (interleave fs)"
proof (induction fs arbitrary: n rule: interleave.induct)
  case 1
  show ?case by simp
next
  case (2 l r fs)
  show ?case
  proof (cases n)
    case 0
    then show ?thesis by simp
  next
    case (Suc m)
    then show ?thesis using "2.IH" [of m] by simp
  qed
qed

lemma region_sized_length: "region_sized r \<Longrightarrow> length (ringData r) = 32768"
  by (simp add: region_sized_def kRightMic_RingBufferFrames_def kRightMic_ChannelCount_def)

lemma publish_keeps_inv:
  assumes inv: "session_inv s w pending"
    and room: "length pending + length fs \<le> kRightMic_RingBufferFrames"
    and nowrap: "unat (writeHead (header (region w))) + length fs < 2 ^ 64"
  shows "session_inv s (w\<lparr> region := writer_publish fs (region w) \<rparr>) (pending @ fs)"
proof -
  let ?h = "header (region w)"
  let ?data = "ringData (region w)"
  have len: "length ?data = 32768"
    using inv by (simp add: session_inv_def region_sized_length)
  have wh: "unat (writeHead ?h) = unat (readHead ?h) + length pending"
    using inv by (simp add: session_inv_def)
  have fsw: "unat (word_of_nat (length fs) :: UInt64) = length fs"
    using nowrap by (simp add: unat_of_nat)
  have "unat (writeHead ?h) + unat (word_of_nat (length fs) :: UInt64) < 2 ^ LENGTH(64)"
    using nowrap fsw by simp
  then have "unat (writeHead ?h + word_of_nat (length fs))
             = unat (writeHead ?h) + unat (word_of_nat (length fs) :: UInt64)"
    by (simp only: unat_add_lem)
  then have wh': "unat (writeHead ?h + word_of_nat (length fs)) = unat (writeHead ?h) + length fs"
    using fsw by simp
  have ring: "ring_frames (write_frames ?data (unat (writeHead ?h)) fs) (unat (readHead ?h))
                (length pending + length fs) = interleave pending @ interleave fs"
    using ring_frames_after_write [OF len, of "length pending" fs "unat (readHead ?h)"]
      room inv
    by (simp add: wh session_inv_def kRightMic_RingBufferFrames_def)
  show ?thesis
    using inv room wh' ring
    by (simp add: session_inv_def writer_publish_def reader_attached_def region_sized_def
        interleave_append wh)
qed

lemma reopen_attached:
  assumes "reader_attached s w"
  obtains s1 w1 where "reopen_if_unmapped s w = (s1, w1)"
    and "sShm_Ptr s1 = MAPPED PROT_READ" and "sRingHeader s1 = IN_REGION PROT_READ"
    and "sRingData s1 = IN_REGION PROT_READ"
    and "region w1 = region w"
    and "reader_attached s1 w1"
proof (cases "sShm_Ptr s = MAPPED PROT_READ")
  case True
  with assms show ?thesis
    by (intro that [of s w]) (auto simp: reopen_if_unmapped_def reader_attached_def)
next
  case False
  with assms have a: "sShm_Ptr s = MAP_FAILED" "shm_file_exists w" "mmap_succeeds w"
    by (auto simp: reader_attached_def)
  obtain s1 w1 where r: "reopen_if_unmapped s w = (s1, w1)" by (cases "reopen_if_unmapped s w")
  show ?thesis
    using r a
    by (intro that [of s1 w1])
       (auto simp: reopen_if_unmapped_def RightMic_OpenSharedMemory_def Let_def
          reader_attached_def)
qed

text \<open>
  A read that finds the frames it asks for copies them, in order, and stops at the store:
  the shared region is left as it was.
\<close>

lemma read_stops:
  assumes inv: "session_inv s w pending"
    and enough: "unat k \<le> length pending"
    and buf: "length buf = 2 * unat k"
  shows "\<exists>s' w' io.
           RightMic_DoIOOperation kAudioServerPlugInIOOperationReadInput k buf s w
             = Inl (ProtectionFault s' w' io)
           \<and> outBuffer io = interleave (take (unat k) pending)
           \<and> region w' = region w"
proof -
  from inv have att: "reader_attached s w" by (simp add: session_inv_def)
  from reopen_attached [OF att]
  obtain s1 w1 where re: "reopen_if_unmapped s w = (s1, w1)"
    and p: "sShm_Ptr s1 = MAPPED PROT_READ" "sRingHeader s1 = IN_REGION PROT_READ"
      "sRingData s1 = IN_REGION PROT_READ"
    and reg: "region w1 = region w" and att1: "reader_attached s1 w1"
    by blast
  let ?h = "header (region w)"
  let ?data = "ringData (region w)"
  let ?n = "length pending"
  have n: "?n \<le> 16384"
    using inv by (simp add: session_inv_def kRightMic_RingBufferFrames_def)
  have k: "unat k < 2 ^ 31" using enough n by simp
  have wh: "unat (writeHead ?h) = unat (readHead ?h) + ?n"
    using inv by (simp add: session_inv_def)
  have le: "readHead ?h \<le> writeHead ?h" using wh by (simp add: word_le_nat_alt)
  have av: "unat (available_frames (writeHead ?h) (readHead ?h)) = ?n"
    using le wh by (simp add: available_frames_def unat_sub)
  have av': "ucast k \<le> available_frames (writeHead ?h) (readHead ?h)"
    using enough by (simp add: word_le_nat_alt av unat_ucast_up)
  have sized: "region_sized (region w1)" using inv reg by (simp add: session_inv_def)
  have act: "active (header (region w1)) \<noteq> 0" using inv reg by (simp add: session_inv_def)
  from DoIOOperation_frames [OF re p(2,3) act _ sized k buf] av' reg
  obtain io where d: "RightMic_DoIOOperation kAudioServerPlugInIOOperationReadInput k buf s w
                        = Inl (ProtectionFault s1 w1 io)"
    and o: "outBuffer io = ring_frames ?data (unat (readHead ?h)) (unat k)"
    by simp
  have ring: "ring_frames ?data (unat (readHead ?h)) ?n = interleave pending"
    using inv by (simp add: session_inv_def)
  have split: "ring_frames ?data (unat (readHead ?h)) ?n
               = ring_frames ?data (unat (readHead ?h)) (unat k)
                 @ ring_frames ?data (unat (readHead ?h) + unat k) (?n - unat k)"
    using ring_frames_add [of ?data "unat (readHead ?h)" "unat k" "?n - unat k"] enough
    by simp
  have lfront: "length (ring_frames ?data (unat (readHead ?h)) (unat k)) = 2 * unat k"
    using inv by (simp add: length_ring_frames session_inv_def region_sized_length)
  have front: "ring_frames ?data (unat (readHead ?h)) (unat k) = take (2 * unat k) (interleave pending)"
    using split lfront ring by (metis append_eq_conv_conj)
  show ?thesis
    using d o front reg by (auto simp: interleave_take)
qed

lemma keeps_contract_Publish:
  assumes "keeps_contract pending (Publish fs # es)"
  shows "pending + length fs \<le> kRightMic_RingBufferFrames"
    and "keeps_contract (pending + length fs) es"
proof -
  from assms have all: "\<forall>p \<in> set (prefixes es).
      requested p \<le> pending + (length fs + written p)
      \<and> pending + (length fs + written p) - requested p \<le> kRightMic_RingBufferFrames"
    by (simp add: keeps_contract_def list_all_iff)
  have "[] \<in> set (prefixes es)" by simp
  with all show "pending + length fs \<le> kRightMic_RingBufferFrames" by fastforce
  from all show "keeps_contract (pending + length fs) es"
    by (simp add: keeps_contract_def list_all_iff add.assoc)
qed

lemma keeps_contract_Read:
  assumes "keeps_contract pending (Read k buf # es)"
  shows "unat k \<le> pending"
    and "keeps_contract (pending - unat k) es"
proof -
  from assms have all: "\<forall>p \<in> set (prefixes es).
      unat k + requested p \<le> pending + written p
      \<and> pending + written p - (unat k + requested p) \<le> kRightMic_RingBufferFrames"
    by (simp add: keeps_contract_def list_all_iff)
  have "[] \<in> set (prefixes es)" by simp
  with all show k: "unat k \<le> pending" by fastforce
  show "keeps_contract (pending - unat k) es"
    unfolding keeps_contract_def list_all_iff
  proof
    fix p assume "p \<in> set (prefixes es)"
    with all have "unat k + requested p \<le> pending + written p"
      and "pending + written p - (unat k + requested p) \<le> kRightMic_RingBufferFrames"
      by blast+
    with k show "requested p \<le> pending - unat k + written p
        \<and> pending - unat k + written p - requested p \<le> kRightMic_RingBufferFrames"
      by simp
  qed
qed

text \<open>
  Under the contract of the writer a session gets as far as its first read and no
  further.
\<close>

lemma session_stops:
  assumes "session_inv s w pending"
    and "keeps_contract (length pending) es"
    and "list_all host_buffer_ok es"
    and "unat (writeHead (header (region w))) + written es < 2 ^ 64"
    and "first_read es = Some (q, k)"
  shows "\<exists>s' w' io. run es s w = Inl (ProtectionFault s' w' io)
           \<and> outBuffer io = interleave (take (unat k) (pending @ q))
           \<and> readHead (header (region w')) = readHead (header (region w))"
  using assms
proof (induction es arbitrary: s w pending q)
  case Nil
  then show ?case by simp
next
  case (Cons e es)
  show ?case
  proof (cases e)
    case (Publish fs)
    let ?w = "w\<lparr> region := writer_publish fs (region w) \<rparr>"
    note kc = keeps_contract_Publish [OF Cons.prems(2) [unfolded Publish]]
    from Cons.prems(5) obtain q' where q': "first_read es = Some (q', k)" and q: "q = fs @ q'"
      by (auto simp: Publish split: option.splits)
    have nowrap: "unat (writeHead (header (region w))) + length fs < 2 ^ 64"
      using Cons.prems(4) by (simp add: Publish)
    have inv: "session_inv s ?w (pending @ fs)"
      by (rule publish_keeps_inv [OF Cons.prems(1) kc(1) nowrap])
    have wh: "unat (writeHead (header (region ?w)))
              = unat (writeHead (header (region w))) + length fs"
      using inv Cons.prems(1) by (simp add: session_inv_def writer_publish_def)
    have rh: "readHead (header (writer_publish fs (region w))) = readHead (header (region w))"
      by (simp add: writer_publish_def)
    have "\<exists>s' w' io. run es s ?w = Inl (ProtectionFault s' w' io)
            \<and> outBuffer io = interleave (take (unat k) ((pending @ fs) @ q'))
            \<and> readHead (header (region w')) = readHead (header (region ?w))"
    proof (rule Cons.IH [OF inv _ _ _ q'])
      show "keeps_contract (length (pending @ fs)) es" using kc(2) by simp
      show "list_all host_buffer_ok es" using Cons.prems(3) by simp
      show "unat (writeHead (header (region ?w))) + written es < 2 ^ 64"
        using Cons.prems(4) wh by (simp add: Publish)
    qed
    then show ?thesis by (simp add: Publish q rh)
  next
    case (Read k' buf)
    from Cons.prems(5) have k: "k' = k" and q: "q = []" by (simp_all add: Read)
    note kc = keeps_contract_Read [OF Cons.prems(2) [unfolded Read]]
    have buf: "length buf = 2 * unat k'"
      using Cons.prems(3) by (simp add: Read kRightMic_ChannelCount_def)
    from read_stops [OF Cons.prems(1) kc(1) buf]
    obtain s1 w1 io where d:
        "RightMic_DoIOOperation kAudioServerPlugInIOOperationReadInput k' buf s w
           = Inl (ProtectionFault s1 w1 io)"
      and o: "outBuffer io = interleave (take (unat k') pending)"
      and reg: "region w1 = region w"
      by blast
    show ?thesis
      using d o reg by (simp add: Read k q)
  qed
qed

section \<open>Claims about the ring buffer transport\<close>

text \<open>A world for the examples: the file exists, the ring is empty and the writer active.\<close>

definition example_world :: world where
  "example_world =
     \<lparr> shm_file_exists = True, open_fd = 3, mmap_succeeds = True,
       region = \<lparr> header = \<lparr> writeHead = 0, readHead = 0, active = 1,
                             sampleRate = 48000, channels = 2 \<rparr>,
                  ringData = replicate 32768 0 \<rparr>,
       syscalls = [] \<rparr>"

definition example_session :: "event list" where
  "example_session =
     [Publish [(1, 2), (3, 4)], Read 1 [9, 9], Publish [(5, 6)], Read 2 [9, 9, 9, 9]]"

text \<open>
  C1. The driver does not do what the claim says. Take a session as the claim describes
  it: nothing outstanding at the start, the writer active, the reader with the region
  mapped or able to map it, and the writer and the host acting in any order such that at
  every moment the frames written so far are at least the frames requested so far and the
  frames outstanding never exceed the capacity 16384 of the ring (and the frame counter
  does not wrap). The first read of such a session copies the frames it asks for, the
  oldest frames published, into the buffer of the host and then stops at the store to
  \<open>readHead\<close>, which the read-only mapping refuses: the call does not return, no buffer
  reaches the host, \<open>readHead\<close> stays where it was and the session is over.
\<close>

theorem C1_first_read_stops_at_the_store:
  assumes "reader_attached s w"
    and "region_sized (region w)"
    and "active (header (region w)) \<noteq> 0"
    and "writeHead (header (region w)) = readHead (header (region w))"
    and "keeps_contract 0 es"
    and "list_all host_buffer_ok es"
    and "unat (writeHead (header (region w))) + written es < 2 ^ 64"
    and "first_read es = Some (q, k)"
  shows "\<exists>s' w' io. run es s w = Inl (ProtectionFault s' w' io)
           \<and> outBuffer io = interleave (take (unat k) q)
           \<and> readHead (header (region w')) = readHead (header (region w))"
proof -
  have "session_inv s w []"
    using assms(1-4) by (simp add: session_inv_def)
  from session_stops [OF this _ assms(6,7,8)] assms(5)
  show ?thesis by simp
qed

theorem C1_witness:
  "reader_attached driver_init example_world
   \<and> region_sized (region example_world)
   \<and> active (header (region example_world)) \<noteq> 0
   \<and> writeHead (header (region example_world)) = readHead (header (region example_world))
   \<and> keeps_contract 0 example_session
   \<and> list_all host_buffer_ok example_session
   \<and> unat (writeHead (header (region example_world))) + written example_session < 2 ^ 64
   \<and> first_read example_session = Some ([(1, 2), (3, 4)], 1)
   \<and> (\<exists>s' w' io. run example_session driver_init example_world
                    = Inl (ProtectionFault s' w' io)
         \<and> outBuffer io = [1, 2]
         \<and> readHead (header (region w')) = 0)"
proof -
  have a: "reader_attached driver_init example_world"
    by (simp add: reader_attached_def driver_init_def example_world_def)
  have b: "region_sized (region example_world)"
    by (simp add: region_sized_def example_world_def kRightMic_RingBufferFrames_def
        kRightMic_ChannelCount_def)
  have c: "active (header (region example_world)) \<noteq> 0"
    by (simp add: example_world_def)
  have d: "writeHead (header (region example_world)) = readHead (header (region example_world))"
    by (simp add: example_world_def)
  have e: "keeps_contract 0 example_session"
    by (simp add: keeps_contract_def example_session_def kRightMic_RingBufferFrames_def)
  have f: "list_all host_buffer_ok example_session"
    by (simp add: example_session_def kRightMic_ChannelCount_def)
  have g: "unat (writeHead (header (region example_world))) + written example_session < 2 ^ 64"
    by (simp add: example_world_def example_session_def)
  have h: "first_read example_session = Some ([(1, 2), (3, 4)], 1)"
    by (simp add: example_session_def)
  have r: "readHead (header (region example_world)) = 0"
    by (simp add: example_world_def)
  show ?thesis
    using C1_first_read_stops_at_the_store [OF a b c d e f g h] a b c d e f g h
    by (simp add: r)
qed

text \<open>The globals of a driver that has the region of the example world mapped.\<close>

definition mapped_driver :: driver where
  "mapped_driver =
     driver_init\<lparr> sShm_FD := 3, sShm_Ptr := MAPPED PROT_READ,
                  sRingHeader := IN_REGION PROT_READ, sRingData := IN_REGION PROT_READ \<rparr>"

text \<open>
  Two more worlds: one frame published, and a writer that is not active. The last buffer is
  one of \<open>2^31\<close> frames, every sample 9.
\<close>

definition example_world_inactive :: world where
  "example_world_inactive =
     \<lparr> shm_file_exists = True, open_fd = 3, mmap_succeeds = True,
       region = \<lparr> header = \<lparr> writeHead = 0, readHead = 0, active = 0,
                             sampleRate = 48000, channels = 2 \<rparr>,
                  ringData = replicate 32768 0 \<rparr>,
       syscalls = [Sys_open, Sys_mmap] \<rparr>"

definition huge_buffer :: "sample list" where
  "huge_buffer = replicate (kRightMic_ChannelCount * unat (2147483648 :: UInt32)) 9"

definition example_world_one_frame :: world where
  "example_world_one_frame =
     \<lparr> shm_file_exists = True, open_fd = 3, mmap_succeeds = True,
       region = \<lparr> header = \<lparr> writeHead = 1, readHead = 0, active = 1,
                             sampleRate = 48000, channels = 2 \<rparr>,
                  ringData = 5 # 7 # replicate 32766 0 \<rparr>,
       syscalls = [] \<rparr>"

text \<open>
  C2, as amended. When the region is still not mapped after the attempt the call itself
  makes to map it, or the writer is not active, or fewer frames are available than
  requested, a read of fewer than \<open>2^31\<close> frames clears the whole buffer, leaves the
  shared region (so \<open>readHead\<close>) as it was and returns success.
\<close>

theorem C2_silence_instead_of_error:
  assumes "reopen_if_unmapped s w = (s1, w1)"
    and "sRingHeader s1 = NULL \<or> active (header (region w1)) = 0
       \<or> available_frames (writeHead (header (region w1))) (readHead (header (region w1)))
            < ucast framesToFill"
    and "unat framesToFill < 2 ^ 31"
    and "length buf = kRightMic_ChannelCount * unat framesToFill"
  shows "RightMic_DoIOOperation kAudioServerPlugInIOOperationReadInput framesToFill buf s w
         = Inr (kAudioHardwareNoError, s1, w1,
                \<lparr> outBuffer = replicate (kRightMic_ChannelCount * unat framesToFill) 0,
                  copies = [] \<rparr>)
         \<and> region w1 = region w"
  using DoIOOperation_silence [OF assms(1,2,3)] assms(4) reopen_region [OF assms(1)]
  by (simp add: kRightMic_ChannelCount_def)

theorem C2_witness:
  "reopen_if_unmapped driver_init (example_world\<lparr> shm_file_exists := False \<rparr>)
     = (driver_init, example_world\<lparr> shm_file_exists := False, syscalls := [Sys_open] \<rparr>)
   \<and> sRingHeader driver_init = NULL
   \<and> unat (2 :: UInt32) < 2 ^ 31
   \<and> length [9, 9, 9, 9 :: sample] = kRightMic_ChannelCount * unat (2 :: UInt32)
   \<and> RightMic_DoIOOperation kAudioServerPlugInIOOperationReadInput 2 [9, 9, 9, 9]
        driver_init (example_world\<lparr> shm_file_exists := False \<rparr>)
      = Inr (kAudioHardwareNoError, driver_init,
             example_world\<lparr> shm_file_exists := False, syscalls := [Sys_open] \<rparr>,
             \<lparr> outBuffer = [0, 0, 0, 0], copies = [] \<rparr>)"
proof -
  let ?w = "example_world\<lparr> shm_file_exists := False \<rparr>"
  let ?w1 = "example_world\<lparr> shm_file_exists := False, syscalls := [Sys_open] \<rparr>"
  have a: "reopen_if_unmapped driver_init ?w = (driver_init, ?w1)"
    by (simp add: reopen_if_unmapped_def RightMic_OpenSharedMemory_def driver_init_def
        example_world_def)
  have b: "sRingHeader driver_init = NULL \<or> active (header (region ?w1)) = 0
       \<or> available_frames (writeHead (header (region ?w1))) (readHead (header (region ?w1)))
            < ucast (2 :: UInt32)"
    by (simp add: driver_init_def)
  have c: "unat (2 :: UInt32) < 2 ^ 31" by simp
  have d: "length [9, 9, 9, 9 :: sample] = kRightMic_ChannelCount * unat (2 :: UInt32)"
    by (simp add: kRightMic_ChannelCount_def)
  have "replicate 4 (0 :: sample) = [0, 0, 0, 0]"
    by (simp add: numeral_eq_Suc)
  then have e: "replicate (kRightMic_ChannelCount * unat (2 :: UInt32)) (0 :: sample)
                = [0, 0, 0, 0]"
    by (simp add: kRightMic_ChannelCount_def)
  show ?thesis
    using C2_silence_instead_of_error [OF a b c d] a c d e
    by (simp add: driver_init_def)
qed

text \<open>
  The claim as it stands fails twice. The region is not mapped when the call begins, yet
  the call maps it, finds the writer active with a frame published and takes the path
  that copies frames: it does not clear the buffer, and it does not return success
  either, since it stops at the store to \<open>readHead\<close>. And with the writer not active, a
  request of \<open>2^31\<close> frames clears nothing: the number of samples to clear is a 32-bit
  product and wraps to 0, so the buffer keeps its samples.
\<close>

lemma silence_wraps:
  "RightMic_DoIOOperation kAudioServerPlugInIOOperationReadInput 2147483648 huge_buffer
     mapped_driver example_world_inactive
   = Inr (kAudioHardwareNoError, mapped_driver, example_world_inactive,
          \<lparr> outBuffer = huge_buffer, copies = [] \<rparr>)"
proof -
  have re: "reopen_if_unmapped mapped_driver example_world_inactive
            = (mapped_driver, example_world_inactive)"
    by (simp add: reopen_if_unmapped_def mapped_driver_def)
  have z: "(2147483648 :: UInt32) * word_of_nat kRightMic_ChannelCount = 0"
    by (simp add: kRightMic_ChannelCount_def)
  have f: "fill_silence 0 huge_buffer = Some \<lparr> outBuffer = huge_buffer, copies = [] \<rparr>"
    by (simp add: fill_silence_def memset_zero_def)
  have a: "active (header (region example_world_inactive)) = 0"
    by (simp add: example_world_inactive_def)
  show ?thesis
    by (simp add: RightMic_DoIOOperation_def Let_def re z f a)
qed

lemma reopen_one_frame:
  "reopen_if_unmapped driver_init example_world_one_frame
   = (mapped_driver, example_world_one_frame\<lparr> syscalls := [Sys_open, Sys_mmap] \<rparr>)"
  by (simp add: reopen_if_unmapped_def RightMic_OpenSharedMemory_def driver_init_def
      example_world_one_frame_def mapped_driver_def)

lemma chunk_plan_one_frame: "chunk_plan 0 1 0 = [(0, 0, 8)]"
  using chunk_plan_single [of 1 0] by simp

lemma read_one_frame:
  "RightMic_DoIOOperation kAudioServerPlugInIOOperationReadInput 1 [9, 9]
     driver_init example_world_one_frame
   = Inl (ProtectionFault mapped_driver
            (example_world_one_frame\<lparr> syscalls := [Sys_open, Sys_mmap] \<rparr>)
            \<lparr> outBuffer = [5, 7], copies = [(0, 0, 8)] \<rparr>)"
proof -
  let ?w1 = "example_world_one_frame\<lparr> syscalls := [Sys_open, Sys_mmap] \<rparr>"
  have h: "readHead (header (region ?w1)) = 0"
    by (simp add: example_world_one_frame_def)
  have f: "ring_frames (ringData (region ?w1)) (unat (0 :: UInt64)) (unat (1 :: UInt32)) = [5, 7]"
    by (simp add: example_world_one_frame_def ring_frames_def frame_at_def
        kRightMic_ChannelCount_def)
  have "RightMic_DoIOOperation kAudioServerPlugInIOOperationReadInput 1 [9, 9]
          driver_init example_world_one_frame
        = Inl (ProtectionFault mapped_driver ?w1
                 \<lparr> outBuffer = ring_frames (ringData (region ?w1))
                                 (unat (readHead (header (region ?w1)))) (unat (1 :: UInt32)),
                   copies = chunk_plan (readHead (header (region ?w1))) 1 0 \<rparr>)"
    by (rule DoIOOperation_frames [OF reopen_one_frame])
       (simp_all add: example_world_one_frame_def mapped_driver_def region_sized_def
          available_frames_def kRightMic_RingBufferFrames_def kRightMic_ChannelCount_def)
  then show ?thesis
    unfolding h f chunk_plan_one_frame .
qed

theorem C2_counterexample:
  "sShm_Ptr driver_init = MAP_FAILED
   \<and> RightMic_DoIOOperation kAudioServerPlugInIOOperationReadInput 1 [9, 9]
        driver_init example_world_one_frame
      = Inl (ProtectionFault mapped_driver
               (example_world_one_frame\<lparr> syscalls := [Sys_open, Sys_mmap] \<rparr>)
               \<lparr> outBuffer = [5, 7], copies = [(0, 0, 8)] \<rparr>)
   \<and> active (header (region example_world_inactive)) = 0
   \<and> length huge_buffer = kRightMic_ChannelCount * unat (2147483648 :: UInt32)
   \<and> hd huge_buffer = 9
   \<and> RightMic_DoIOOperation kAudioServerPlugInIOOperationReadInput 2147483648 huge_buffer
        mapped_driver example_world_inactive
      = Inr (kAudioHardwareNoError, mapped_driver, example_world_inactive,
             \<lparr> outBuffer = huge_buffer, copies = [] \<rparr>)"
proof -
  have "active (header (region example_world_inactive)) = 0"
    by (simp add: example_world_inactive_def)
  moreover have "length huge_buffer = kRightMic_ChannelCount * unat (2147483648 :: UInt32)"
    and "hd huge_buffer = 9"
    by (simp_all add: huge_buffer_def kRightMic_ChannelCount_def)
  moreover have "sShm_Ptr driver_init = MAP_FAILED" by (simp add: driver_init_def)
  ultimately show ?thesis
    using silence_wraps read_one_frame by simp
qed

lemma reopen_pointers:
  assumes "reopen_if_unmapped s w = (s1, w1)" and "pointers_consistent s"
    and "sRingHeader s1 \<noteq> NULL"
  shows "sRingHeader s1 = IN_REGION PROT_READ" and "sRingData s1 = IN_REGION PROT_READ"
  using reopen_consistent [OF assms(1,2)] assms(3)
  by (auto simp: pointers_consistent_def)

lemma fill_silence_total:
  assumes "length buf = 2 * unat framesToFill"
  shows "\<exists>io. fill_silence (framesToFill * word_of_nat kRightMic_ChannelCount) buf = Some io"
proof -
  have "unat (framesToFill * 2) \<le> length buf"
    using dst_offset_le [of framesToFill] assms by simp
  then show ?thesis
    by (simp add: fill_silence_def memset_zero_def channels32 Let_def)
qed

text \<open>
  No read changes the shared region. For a driver whose pointers are consistent, a region
  of the mapped size and a buffer of the requested size, a read either returns, having
  filled the buffer with silence, or stops at the store to \<open>readHead\<close>; the region is the
  same in both cases.
\<close>

lemma read_leaves_region:
  assumes "pointers_consistent s"
    and "region_sized (region w)"
    and "length buf = 2 * unat framesToFill"
  shows "\<exists>s' w' io.
           left_behind (RightMic_DoIOOperation kAudioServerPlugInIOOperationReadInput
                          framesToFill buf s w) = Some (s', w', io)
           \<and> region w' = region w"
proof -
  let ?h = "header (region w)"
  obtain s1 w1 where re: "reopen_if_unmapped s w = (s1, w1)"
    by (cases "reopen_if_unmapped s w")
  note reg = reopen_region [OF re]
  obtain sil where sil: "fill_silence (framesToFill * word_of_nat kRightMic_ChannelCount) buf
                         = Some sil"
    using fill_silence_total [OF assms(3)] by blast
  show ?thesis
  proof (cases "sRingHeader s1 \<noteq> NULL \<and> active ?h \<noteq> 0
                \<and> ucast framesToFill \<le> available_frames (writeHead ?h) (readHead ?h)")
    case False
    then have "RightMic_DoIOOperation kAudioServerPlugInIOOperationReadInput framesToFill buf s w
               = Inr (kAudioHardwareNoError, s1, w1, sil)"
      by (auto simp: RightMic_DoIOOperation_def Let_def re reg sil)
    then show ?thesis using reg by simp
  next
    case True
    note ptr = reopen_pointers [OF re assms(1)]
    from DoIOOperation_stops [OF re ptr, of framesToFill buf] True assms(2,3) reg
    obtain io where "RightMic_DoIOOperation kAudioServerPlugInIOOperationReadInput
                       framesToFill buf s w = Inl (ProtectionFault s1 w1 io)"
      by auto
    then show ?thesis using reg by simp
  qed
qed

text \<open>
  C6. A read keeps \<open>readHead\<close> at or below \<open>writeHead\<close>. Whether the call returns or
  stops at the store, it leaves \<open>writeHead\<close> alone, never moves \<open>readHead\<close> back, and
  leaves \<open>readHead\<close> either where it was or, only when at least the requested frames were
  available, advanced by exactly the requested count. (In this driver \<open>readHead\<close> is in
  fact never advanced: the store that would advance it is refused.)
\<close>

theorem C6_read_keeps_heads_ordered:
  assumes "readHead (header (region w)) \<le> writeHead (header (region w))"
    and "pointers_consistent s"
    and "region_sized (region w)"
    and "length buf = kRightMic_ChannelCount * unat framesToFill"
  shows "\<exists>s' w' io.
           left_behind (RightMic_DoIOOperation kAudioServerPlugInIOOperationReadInput
                          framesToFill buf s w) = Some (s', w', io)
           \<and> writeHead (header (region w')) = writeHead (header (region w))
           \<and> readHead (header (region w')) \<le> writeHead (header (region w'))
           \<and> readHead (header (region w)) \<le> readHead (header (region w'))
           \<and> (readHead (header (region w')) = readHead (header (region w))
              \<or> (ucast framesToFill
                    \<le> available_frames (writeHead (header (region w)))
                         (readHead (header (region w)))
                  \<and> unat (readHead (header (region w')))
                      = unat (readHead (header (region w))) + unat framesToFill))"
proof -
  have buf: "length buf = 2 * unat framesToFill"
    using assms(4) by (simp add: kRightMic_ChannelCount_def)
  from read_leaves_region [OF assms(2,3) buf]
  obtain s' w' io where
    l: "left_behind (RightMic_DoIOOperation kAudioServerPlugInIOOperationReadInput
                       framesToFill buf s w) = Some (s', w', io)"
    and reg: "region w' = region w"
    by blast
  show ?thesis
    using l assms(1) by (simp add: reg)
qed

theorem C6_witness:
  "readHead (header (region example_world_one_frame))
     \<le> writeHead (header (region example_world_one_frame))
   \<and> pointers_consistent driver_init
   \<and> region_sized (region example_world_one_frame)
   \<and> length [9, 9 :: sample] = kRightMic_ChannelCount * unat (1 :: UInt32)
   \<and> (\<exists>s' w' io.
         left_behind (RightMic_DoIOOperation kAudioServerPlugInIOOperationReadInput 1 [9, 9]
                        driver_init example_world_one_frame) = Some (s', w', io)
         \<and> writeHead (header (region w')) = 1
         \<and> readHead (header (region w')) \<le> writeHead (header (region w'))
         \<and> readHead (header (region w')) = 0)"
proof -
  have a: "readHead (header (region example_world_one_frame))
            \<le> writeHead (header (region example_world_one_frame))"
    by (simp add: example_world_one_frame_def)
  have c: "region_sized (region example_world_one_frame)"
    by (simp add: example_world_one_frame_def region_sized_def kRightMic_RingBufferFrames_def
        kRightMic_ChannelCount_def)
  have d: "length [9, 9 :: sample] = kRightMic_ChannelCount * unat (1 :: UInt32)"
    by (simp add: kRightMic_ChannelCount_def)
  have h: "writeHead (header (region example_world_one_frame)) = 1"
    "readHead (header (region example_world_one_frame)) = 0"
    by (simp_all add: example_world_one_frame_def)
  from C6_read_keeps_heads_ordered [OF a pointers_consistent_init c d]
  obtain s' w' io where
    l: "left_behind (RightMic_DoIOOperation kAudioServerPlugInIOOperationReadInput 1 [9, 9]
                       driver_init example_world_one_frame) = Some (s', w', io)"
    and w: "writeHead (header (region w')) = 1"
    and o: "readHead (header (region w')) \<le> writeHead (header (region w'))"
    unfolding h by blast
  have "left_behind (RightMic_DoIOOperation kAudioServerPlugInIOOperationReadInput 1 [9, 9]
                       driver_init example_world_one_frame)
        = Some (mapped_driver, example_world_one_frame\<lparr> syscalls := [Sys_open, Sys_mmap] \<rparr>,
                \<lparr> outBuffer = [5, 7], copies = [(0, 0, 8)] \<rparr>)"
    by (simp add: read_one_frame)
  with l have "w' = example_world_one_frame\<lparr> syscalls := [Sys_open, Sys_mmap] \<rparr>" by simp
  then have "readHead (header (region w')) = 0" by (simp add: h)
  with l w o show ?thesis
    using a c d pointers_consistent_init by blast
qed

lemma copy_loop_no_frames: "copy_loop rHead 0 data 0 io = Some io"
  by (subst copy_loop.simps) simp

text \<open>
  C7, as amended. The frames available are \<open>writeHead - readHead\<close> when \<open>writeHead\<close> is
  not behind \<open>readHead\<close> and 0 otherwise, so the count is the difference of the counters
  without underflow. When \<open>writeHead\<close> is behind \<open>readHead\<close>, no request of one frame or
  more is covered, and such a read takes the silence path, with the shared region
  untouched.
\<close>

theorem C7_available_never_underflows:
  "available_frames wHead rHead = (if rHead \<le> wHead then wHead - rHead else 0)
   \<and> unat (available_frames wHead rHead) = unat wHead - unat rHead
   \<and> (reopen_if_unmapped s w = (s1, w1)
        \<and> writeHead (header (region w)) < readHead (header (region w))
        \<and> framesToFill \<noteq> 0 \<longrightarrow>
          available_frames (writeHead (header (region w))) (readHead (header (region w))) = 0
          \<and> available_frames (writeHead (header (region w))) (readHead (header (region w)))
              < ucast framesToFill
          \<and> RightMic_DoIOOperation kAudioServerPlugInIOOperationReadInput framesToFill buf s w
             = (case fill_silence (framesToFill * word_of_nat kRightMic_ChannelCount) buf of
                  None \<Rightarrow> Inl OutOfBounds
                | Some io \<Rightarrow> Inr (kAudioHardwareNoError, s1, w1, io))
          \<and> region w1 = region w)"
proof (intro conjI impI)
  show "available_frames wHead rHead = (if rHead \<le> wHead then wHead - rHead else 0)"
    by (simp add: available_frames_def)
  show "unat (available_frames wHead rHead) = unat wHead - unat rHead"
    by (simp add: available_frames_def unat_sub word_le_nat_alt)
next
  let ?wh = "writeHead (header (region w))"
  let ?rh = "readHead (header (region w))"
  assume a: "reopen_if_unmapped s w = (s1, w1) \<and> ?wh < ?rh \<and> framesToFill \<noteq> 0"
  then have re: "reopen_if_unmapped s w = (s1, w1)" and lt: "?wh < ?rh"
    and nz: "framesToFill \<noteq> 0"
    by simp_all
  note reg = reopen_region [OF re]
  show av: "available_frames ?wh ?rh = 0"
    using lt by (auto simp: available_frames_def)
  have k: "unat framesToFill \<noteq> 0" using nz by (simp add: unat_eq_0)
  show "available_frames ?wh ?rh < ucast framesToFill"
    using k by (simp add: av word_less_nat_alt unat_ucast_up)
  show "region w1 = region w" by (rule reg)
  have "\<not> ucast framesToFill \<le> (0 :: UInt64)"
    using k by (simp add: word_le_nat_alt unat_ucast_up)
  then show "RightMic_DoIOOperation kAudioServerPlugInIOOperationReadInput framesToFill buf s w
        = (case fill_silence (framesToFill * word_of_nat kRightMic_ChannelCount) buf of
             None \<Rightarrow> Inl OutOfBounds
           | Some io \<Rightarrow> Inr (kAudioHardwareNoError, s1, w1, io))"
    by (simp add: RightMic_DoIOOperation_def Let_def re reg av)
qed

definition example_world_writer_behind :: world where
  "example_world_writer_behind =
     \<lparr> shm_file_exists = True, open_fd = 3, mmap_succeeds = True,
       region = \<lparr> header = \<lparr> writeHead = 5, readHead = 9, active = 1,
                             sampleRate = 48000, channels = 2 \<rparr>,
                  ringData = replicate 32768 0 \<rparr>,
       syscalls = [Sys_open, Sys_mmap] \<rparr>"

theorem C7_witness:
  "reopen_if_unmapped mapped_driver example_world_writer_behind
     = (mapped_driver, example_world_writer_behind)
   \<and> writeHead (header (region example_world_writer_behind))
       < readHead (header (region example_world_writer_behind))
   \<and> (1 :: UInt32) \<noteq> 0
   \<and> available_frames 5 9 = 0
   \<and> RightMic_DoIOOperation kAudioServerPlugInIOOperationReadInput 1 [9, 9]
        mapped_driver example_world_writer_behind
      = Inr (kAudioHardwareNoError, mapped_driver, example_world_writer_behind,
             \<lparr> outBuffer = [0, 0], copies = [] \<rparr>)"
proof -
  have re: "reopen_if_unmapped mapped_driver example_world_writer_behind
            = (mapped_driver, example_world_writer_behind)"
    by (simp add: reopen_if_unmapped_def mapped_driver_def)
  have lt: "writeHead (header (region example_world_writer_behind))
            < readHead (header (region example_world_writer_behind))"
    by (simp add: example_world_writer_behind_def)
  have sil: "fill_silence (1 * word_of_nat kRightMic_ChannelCount) [9, 9]
             = Some \<lparr> outBuffer = [0, 0], copies = [] \<rparr>"
  proof -
    have "replicate 2 (0 :: sample) @ drop 2 [9, 9] = [0, 0]"
      by (simp add: numeral_2_eq_2)
    then show ?thesis
      by (simp add: fill_silence_def memset_zero_def kRightMic_ChannelCount_def)
  qed
  have av: "available_frames 5 9 = (0 :: UInt64)"
    using C7_available_never_underflows [of 5 9] by simp
  have nz: "(1 :: UInt32) \<noteq> 0" by simp
  from C7_available_never_underflows [of 5 9 mapped_driver example_world_writer_behind
      mapped_driver example_world_writer_behind 1 "[9, 9]"] re lt nz
  have "RightMic_DoIOOperation kAudioServerPlugInIOOperationReadInput 1 [9, 9]
          mapped_driver example_world_writer_behind
         = (case fill_silence (1 * word_of_nat kRightMic_ChannelCount) [9, 9] of
              None \<Rightarrow> Inl OutOfBounds
            | Some io \<Rightarrow> Inr (kAudioHardwareNoError, mapped_driver,
                              example_world_writer_behind, io))"
    by blast
  then show ?thesis
    using re lt av nz by (simp only: sil option.case simp_thms)
qed

text \<open>
  The claim as it stands fails for a request of no frames. With \<open>writeHead\<close> behind
  \<open>readHead\<close> the frames available are 0, which covers a request of 0 frames: the call
  does not take the silence path, which would return success, but the path that copies
  frames, where it stops at the store to \<open>readHead\<close>.
\<close>

theorem C7_counterexample:
  "writeHead (header (region example_world_writer_behind))
     < readHead (header (region example_world_writer_behind))
   \<and> available_frames (writeHead (header (region example_world_writer_behind)))
        (readHead (header (region example_world_writer_behind))) = 0
   \<and> fill_silence (0 * word_of_nat kRightMic_ChannelCount) []
      = Some \<lparr> outBuffer = [], copies = [] \<rparr>
   \<and> RightMic_DoIOOperation kAudioServerPlugInIOOperationReadInput 0 []
        mapped_driver example_world_writer_behind
      = Inl (ProtectionFault mapped_driver example_world_writer_behind
               \<lparr> outBuffer = [], copies = [] \<rparr>)
   \<and> RightMic_DoIOOperation kAudioServerPlugInIOOperationReadInput 0 []
        mapped_driver example_world_writer_behind
      \<noteq> Inr (kAudioHardwareNoError, mapped_driver, example_world_writer_behind,
              \<lparr> outBuffer = [], copies = [] \<rparr>)"
proof -
  let ?w = example_world_writer_behind
  have re: "reopen_if_unmapped mapped_driver ?w = (mapped_driver, ?w)"
    by (simp add: reopen_if_unmapped_def mapped_driver_def)
  have h: "writeHead (header (region ?w)) = 5" "readHead (header (region ?w)) = 9"
    "active (header (region ?w)) = 1"
    by (simp_all add: example_world_writer_behind_def)
  have av: "available_frames 5 9 = (0 :: UInt64)"
    by (simp add: available_frames_def)
  have sil: "fill_silence (0 * word_of_nat kRightMic_ChannelCount) []
             = Some \<lparr> outBuffer = [], copies = [] \<rparr>"
    by (simp add: fill_silence_def memset_zero_def)
  have d: "RightMic_DoIOOperation kAudioServerPlugInIOOperationReadInput 0 [] mapped_driver ?w
           = Inl (ProtectionFault mapped_driver ?w \<lparr> outBuffer = [], copies = [] \<rparr>)"
    by (rule DoIOOperation_reaches_store [OF re])
       (simp_all add: mapped_driver_def h av copy_loop_no_frames)
  show ?thesis
    using sil d by (simp add: h av)
qed

text \<open>
  C10. An operation other than reading input returns success and changes nothing: the
  buffer, the driver's globals and the environment are as before, so the shared region
  (with \<open>readHead\<close>) is untouched and no system call was made to map it. For such an
  operation \<open>RightMic_WillDoIOOperation\<close> answers that the driver will not do it.
\<close>

theorem C10_other_operations_change_nothing:
  "inOperationID \<noteq> kAudioServerPlugInIOOperationReadInput \<Longrightarrow>
   RightMic_DoIOOperation inOperationID framesToFill buf s w
     = Inr (kAudioHardwareNoError, s, w, \<lparr> outBuffer = buf, copies = [] \<rparr>)
   \<and> RightMic_WillDoIOOperation inOperationID = (kAudioHardwareNoError, False, True)"
  by (simp add: RightMic_DoIOOperation_def RightMic_WillDoIOOperation_def)

theorem C10_witness:
  "(0x72697465 :: UInt32) \<noteq> kAudioServerPlugInIOOperationReadInput
   \<and> RightMic_DoIOOperation 0x72697465 1 [9, 9] driver_init example_world_one_frame
     = Inr (kAudioHardwareNoError, driver_init, example_world_one_frame,
            \<lparr> outBuffer = [9, 9], copies = [] \<rparr>)
   \<and> RightMic_WillDoIOOperation 0x72697465 = (kAudioHardwareNoError, False, True)"
proof -
  have a: "(0x72697465 :: UInt32) \<noteq> kAudioServerPlugInIOOperationReadInput"
    by (simp add: kAudioServerPlugInIOOperationReadInput_def)
  show ?thesis
    using C10_other_operations_change_nothing [OF a] a by simp
qed

subsection \<open>The copies of a read and the stream of the writer\<close>

lemma ring_frames_stream:
  assumes "\<forall>i < n. frame_at data ((p + i) mod kRightMic_RingBufferFrames) = stream (p + i)"
  shows "ring_frames data p n = concat (map stream [p ..< p + n])"
proof -
  have "map (\<lambda>i. frame_at data ((p + i) mod kRightMic_RingBufferFrames)) [0..<n]
        = map (\<lambda>i. stream (i + p)) [0..<n]"
    using assms by (intro map_cong) (simp_all add: add.commute)
  also have "\<dots> = map stream (map (\<lambda>i. i + p) [0..<n])"
    by (simp add: o_def)
  also have "\<dots> = map stream [p ..< n + p]"
    by (simp only: map_add_upt)
  finally show ?thesis by (simp add: ring_frames_def add.commute)
qed

text \<open>
  The copies of a read that finds the frames it asks for, and the buffer they leave,
  whatever the protection of the pages: the call returns where the store to \<open>readHead\<close>
  is allowed and stops at the store where it is refused.
\<close>

lemma DoIOOperation_copies:
  assumes re: "reopen_if_unmapped s w = (s1, w1)"
    and ptr: "sRingHeader s1 = IN_REGION pr" "sRingData s1 = IN_REGION pr'"
    and act: "active (header (region w1)) \<noteq> 0"
    and av: "ucast framesToFill
              \<le> available_frames (writeHead (header (region w1))) (readHead (header (region w1)))"
    and sized: "region_sized (region w1)"
    and small: "unat framesToFill < 2 ^ 31"
    and len: "length buf = 2 * unat framesToFill"
  shows "\<exists>w'. left_behind (RightMic_DoIOOperation kAudioServerPlugInIOOperationReadInput
                              framesToFill buf s w)
              = Some (s1, w',
                      \<lparr> outBuffer = ring_frames (ringData (region w1))
                                      (unat (readHead (header (region w1)))) (unat framesToFill),
                        copies = chunk_plan (readHead (header (region w1))) framesToFill 0 \<rparr>)"
proof -
  let ?data = "ringData (region w1)"
  let ?io0 = "\<lparr> outBuffer = buf, copies = [] \<rparr>"
  have l: "length ?data = 32768" by (rule region_sized_length [OF sized])
  from copy_loop_frames [of ?data ?io0 framesToFill 0 "readHead (header (region w1))"]
    l len small
  obtain io where c: "copy_loop (readHead (header (region w1))) framesToFill ?data 0 ?io0 = Some io"
    and o: "outBuffer io = ring_frames ?data (unat (readHead (header (region w1)))) (unat framesToFill)"
    by auto
  have p: "copies io = chunk_plan (readHead (header (region w1))) framesToFill 0"
    using copy_loop_copies [OF c] by simp
  have io: "io = \<lparr> outBuffer = ring_frames ?data (unat (readHead (header (region w1))))
                                (unat framesToFill),
                  copies = chunk_plan (readHead (header (region w1))) framesToFill 0 \<rparr>"
    using o p by simp
  show ?thesis
  proof (cases pr)
    case PROT_READ
    then show ?thesis
      using c ptr act av io
      by (simp add: RightMic_DoIOOperation_def Let_def re ring_source_def)
  next
    case PROT_READ_WRITE
    then show ?thesis
      using c ptr act av io
      by (simp add: RightMic_DoIOOperation_def Let_def re ring_source_def store_readHead_def)
  qed
qed

text \<open>
  C3, as amended. A read of at least one and at most 16384 frames (the capacity of the
  ring) that finds the region mapped, the writer active and the frames it asks for makes
  one \<open>memcpy\<close> when the frames lie before the end of the data, and exactly two when they
  cross it: from \<open>readHead mod 16384\<close> to the end, then the rest from offset 0. Each copy
  is given as the offset in the buffer and the offset in the data, both in samples, and
  its length in bytes. The copies leave in the buffer the frames at the positions
  \<open>readHead\<close>, ..., \<open>readHead + k - 1\<close> of the stream of the writer, whenever the ring
  holds the stream at these positions. The statement is about the copies and the buffer
  they leave; it holds whether the call then returns or stops at the store to \<open>readHead\<close>.
\<close>

theorem C3_copy_splits_at_the_end:
  assumes "reopen_if_unmapped s w = (s1, w1)"
    and "sRingHeader s1 = IN_REGION pr" and "sRingData s1 = IN_REGION pr"
    and "active (header (region w)) \<noteq> 0"
    and "ucast k \<le> available_frames (writeHead (header (region w))) (readHead (header (region w)))"
    and "region_sized (region w)"
    and "0 < unat k" and "unat k \<le> kRightMic_RingBufferFrames"
    and "length buf = kRightMic_ChannelCount * unat k"
    and "\<forall>i < unat k.
           frame_at (ringData (region w))
             ((unat (readHead (header (region w))) + i) mod kRightMic_RingBufferFrames)
           = stream (unat (readHead (header (region w))) + i)"
  shows "\<exists>s' w' io.
           left_behind (RightMic_DoIOOperation kAudioServerPlugInIOOperationReadInput k buf s w)
             = Some (s', w', io)
           \<and> copies io =
               (let idx = unat (readHead (header (region w))) mod kRightMic_RingBufferFrames;
                    to_end = kRightMic_RingBufferFrames - idx
                in if unat k \<le> to_end
                   then [(0, kRightMic_ChannelCount * idx, kRightMic_BytesPerFrame * unat k)]
                   else [(0, kRightMic_ChannelCount * idx, kRightMic_BytesPerFrame * to_end),
                         (kRightMic_ChannelCount * to_end, 0,
                          kRightMic_BytesPerFrame * (unat k - to_end))])
           \<and> outBuffer io
               = concat (map stream [unat (readHead (header (region w)))
                                     ..< unat (readHead (header (region w))) + unat k])"
proof -
  note reg = reopen_region [OF assms(1)]
  let ?rh = "readHead (header (region w))"
  have k: "unat k \<le> 16384" using assms(8) by (simp add: kRightMic_RingBufferFrames_def)
  then have small: "unat k < 2 ^ 31" by simp
  have len: "length buf = 2 * unat k" using assms(9) by (simp add: kRightMic_ChannelCount_def)
  from DoIOOperation_copies [OF assms(1,2,3) _ _ _ small len] assms(4,5,6) reg
  obtain w' where
    d: "left_behind (RightMic_DoIOOperation kAudioServerPlugInIOOperationReadInput k buf s w)
        = Some (s1, w', \<lparr> outBuffer = ring_frames (ringData (region w)) (unat ?rh) (unat k),
                           copies = chunk_plan ?rh k 0 \<rparr>)"
    by auto
  have idx: "unat ?rh mod 16384 < 16384" by simp
  have plan: "chunk_plan ?rh k 0 =
               (let idx = unat ?rh mod kRightMic_RingBufferFrames;
                    to_end = kRightMic_RingBufferFrames - idx
                in if unat k \<le> to_end
                   then [(0, kRightMic_ChannelCount * idx, kRightMic_BytesPerFrame * unat k)]
                   else [(0, kRightMic_ChannelCount * idx, kRightMic_BytesPerFrame * to_end),
                         (kRightMic_ChannelCount * to_end, 0,
                          kRightMic_BytesPerFrame * (unat k - to_end))])"
  proof (cases "unat ?rh mod 16384 + unat k \<le> 16384")
    case True
    then have "unat k \<le> 16384 - unat ?rh mod 16384" by simp
    then show ?thesis
      using chunk_plan_single [OF assms(7) True]
      by (simp add: Let_def kRightMic_RingBufferFrames_def kRightMic_ChannelCount_def
          kRightMic_BytesPerFrame_def kRightMic_BitsPerChannel_def)
  next
    case False
    then have w: "16384 < unat ?rh mod 16384 + unat k" by simp
    then have "\<not> unat k \<le> 16384 - unat ?rh mod 16384" by simp
    then show ?thesis
      using chunk_plan_wrapped [OF w k]
      by (simp add: Let_def kRightMic_RingBufferFrames_def kRightMic_ChannelCount_def
          kRightMic_BytesPerFrame_def kRightMic_BitsPerChannel_def)
  qed
  have "ring_frames (ringData (region w)) (unat ?rh) (unat k)
        = concat (map stream [unat ?rh ..< unat ?rh + unat k])"
    by (rule ring_frames_stream [OF assms(10)])
  with d plan show ?thesis by simp
qed

text \<open>
  The example of the spec: the reader stands at offset 16000 of 16384 and 512 frames are
  requested; 384 frames (3072 bytes) are copied up to the end of the data and 128 frames
  (1024 bytes) from its start.
\<close>

definition example_world_near_end :: world where
  "example_world_near_end =
     \<lparr> shm_file_exists = True, open_fd = 3, mmap_succeeds = True,
       region = \<lparr> header = \<lparr> writeHead = 16512, readHead = 16000, active = 1,
                             sampleRate = 48000, channels = 2 \<rparr>,
                  ringData = replicate 32768 0 \<rparr>,
       syscalls = [Sys_open, Sys_mmap] \<rparr>"

theorem C3_witness:
  "reopen_if_unmapped mapped_driver example_world_near_end
     = (mapped_driver, example_world_near_end)
   \<and> sRingHeader mapped_driver = IN_REGION PROT_READ
   \<and> sRingData mapped_driver = IN_REGION PROT_READ
   \<and> active (header (region example_world_near_end)) \<noteq> 0
   \<and> ucast (512 :: UInt32) \<le> available_frames 16512 (16000 :: UInt64)
   \<and> region_sized (region example_world_near_end)
   \<and> 0 < unat (512 :: UInt32) \<and> unat (512 :: UInt32) \<le> kRightMic_RingBufferFrames
   \<and> length (replicate 1024 (9 :: sample)) = kRightMic_ChannelCount * unat (512 :: UInt32)
   \<and> (\<exists>s' w' io.
         left_behind (RightMic_DoIOOperation kAudioServerPlugInIOOperationReadInput 512
                        (replicate 1024 9) mapped_driver example_world_near_end)
           = Some (s', w', io)
         \<and> copies io = [(0, 32000, 3072), (768, 0, 1024)]
         \<and> outBuffer io
             = concat (map (\<lambda>p. frame_at (replicate 32768 0) (p mod kRightMic_RingBufferFrames))
                         [16000 ..< 16512]))"
proof -
  let ?w = example_world_near_end
  let ?stream = "\<lambda>p. frame_at (replicate 32768 (0 :: sample)) (p mod kRightMic_RingBufferFrames)"
  have h: "readHead (header (region ?w)) = 16000" "writeHead (header (region ?w)) = 16512"
    "ringData (region ?w) = replicate 32768 0"
    by (simp_all add: example_world_near_end_def)
  have a1: "reopen_if_unmapped mapped_driver ?w = (mapped_driver, ?w)"
    by (simp add: reopen_if_unmapped_def mapped_driver_def)
  have a2: "sRingHeader mapped_driver = IN_REGION PROT_READ"
    and a3: "sRingData mapped_driver = IN_REGION PROT_READ"
    by (simp_all add: mapped_driver_def)
  have a4: "active (header (region ?w)) \<noteq> 0" by (simp add: example_world_near_end_def)
  have a5: "ucast (512 :: UInt32) \<le> available_frames 16512 (16000 :: UInt64)"
    by (simp add: available_frames_def)
  have a6: "region_sized (region ?w)"
    by (simp add: example_world_near_end_def region_sized_def kRightMic_RingBufferFrames_def
        kRightMic_ChannelCount_def)
  have a7: "0 < unat (512 :: UInt32)" by simp
  have a8: "unat (512 :: UInt32) \<le> kRightMic_RingBufferFrames"
    by (simp add: kRightMic_RingBufferFrames_def)
  have a9: "length (replicate 1024 (9 :: sample)) = kRightMic_ChannelCount * unat (512 :: UInt32)"
    by (simp add: kRightMic_ChannelCount_def)
  have a10: "\<forall>i < unat (512 :: UInt32).
           frame_at (ringData (region ?w))
             ((unat (readHead (header (region ?w))) + i) mod kRightMic_RingBufferFrames)
           = ?stream (unat (readHead (header (region ?w))) + i)"
    by (simp add: h)
  have plan: "(let idx = unat (16000 :: UInt64) mod kRightMic_RingBufferFrames;
                   to_end = kRightMic_RingBufferFrames - idx
               in if unat (512 :: UInt32) \<le> to_end
                  then [(0, kRightMic_ChannelCount * idx, kRightMic_BytesPerFrame * unat (512 :: UInt32))]
                  else [(0, kRightMic_ChannelCount * idx, kRightMic_BytesPerFrame * to_end),
                        (kRightMic_ChannelCount * to_end, 0,
                         kRightMic_BytesPerFrame * (unat (512 :: UInt32) - to_end))])
              = [(0, 32000, 3072), (768, 0, 1024)]"
    by (simp add: Let_def kRightMic_RingBufferFrames_def kRightMic_ChannelCount_def
        kRightMic_BytesPerFrame_def kRightMic_BitsPerChannel_def)
  have rng: "unat (16000 :: UInt64) + unat (512 :: UInt32) = 16512" by simp
  from C3_copy_splits_at_the_end [OF a1 a2 a3 a4 a5 [folded h(1,2)] a6 a7 a8 a9 a10]
  have "\<exists>s' w' io.
         left_behind (RightMic_DoIOOperation kAudioServerPlugInIOOperationReadInput 512
                        (replicate 1024 9) mapped_driver ?w) = Some (s', w', io)
         \<and> copies io = [(0, 32000, 3072), (768, 0, 1024)]
         \<and> outBuffer io = concat (map ?stream [16000 ..< 16512])"
    unfolding h plan rng by simp
  then show ?thesis
    using a1 a2 a3 a4 a5 a6 a7 a8 a9 by blast
qed

text \<open>
  The claim as it stands fails for a request larger than the ring: with the writer
  32769 frames ahead, a read of 32769 frames from offset 0 finds the frames it asks for
  and makes three copies, of 16384, 16384 and 1 frames. And a read of no frames makes no
  copy. Either call then stops at the store to \<open>readHead\<close>.
\<close>

definition example_world_writer_ahead :: world where
  "example_world_writer_ahead =
     \<lparr> shm_file_exists = True, open_fd = 3, mmap_succeeds = True,
       region = \<lparr> header = \<lparr> writeHead = 32769, readHead = 0, active = 1,
                             sampleRate = 48000, channels = 2 \<rparr>,
                  ringData = replicate 32768 0 \<rparr>,
       syscalls = [Sys_open, Sys_mmap] \<rparr>"

lemma chunk_plan_three: "chunk_plan 0 32769 0 = [(0, 0, 131072), (32768, 0, 131072), (65536, 0, 8)]"
proof -
  have c0: "chunk_of 0 32769 0 = 16384"
    by (simp add: chunk_of_def ringIndex_of_def contiguous_of_def word_frames64)
  have c1: "chunk_of 0 32769 16384 = 16384"
    by (simp add: chunk_of_def ringIndex_of_def contiguous_of_def word_frames64)
  have c2: "chunk_of 0 32769 32768 = 1"
    by (simp add: chunk_of_def ringIndex_of_def contiguous_of_def word_frames64)
  have i0: "ringIndex_of 0 0 = 0" "ringIndex_of 0 16384 = 0" "ringIndex_of 0 32768 = 0"
    by (simp_all add: ringIndex_of_def word_frames64)
  have e: "chunk_plan 0 32769 32769 = []"
    by (subst chunk_plan.simps) simp
  have s2: "chunk_plan 0 32769 32768 = [(65536, 0, 8)]"
    by (subst chunk_plan.simps) (simp add: c2 i0 e channels32 channels64 bytes_per_frame32)
  have s1: "chunk_plan 0 32769 16384 = [(32768, 0, 131072), (65536, 0, 8)]"
    by (subst chunk_plan.simps) (simp add: c1 i0 s2 channels32 channels64 bytes_per_frame32)
  show ?thesis
    by (subst chunk_plan.simps) (simp add: c0 i0 s1 channels32 channels64 bytes_per_frame32)
qed

lemma read_nothing:
  "RightMic_DoIOOperation kAudioServerPlugInIOOperationReadInput 0 []
     mapped_driver example_world_writer_ahead
   = Inl (ProtectionFault mapped_driver example_world_writer_ahead
            \<lparr> outBuffer = [], copies = [] \<rparr>)"
proof -
  have re: "reopen_if_unmapped mapped_driver example_world_writer_ahead
            = (mapped_driver, example_world_writer_ahead)"
    by (simp add: reopen_if_unmapped_def mapped_driver_def)
  have h: "active (header (region example_world_writer_ahead)) = 1"
    "readHead (header (region example_world_writer_ahead)) = 0"
    by (simp_all add: example_world_writer_ahead_def)
  show ?thesis
    by (rule DoIOOperation_reaches_store [OF re])
       (simp_all add: mapped_driver_def h copy_loop_no_frames)
qed

lemma ring_frames_silent:
  "ring_frames (replicate 32768 0) p n = replicate (2 * n) (0 :: sample)"
proof (induction n)
  case 0
  show ?case by simp
next
  case (Suc n)
  have "(p + n) mod 16384 < 16384" by simp
  then have "2 \<le> 32768 - 2 * ((p + n) mod 16384)" by linarith
  then have "min (32768 - 2 * ((p + n) mod 16384)) 2 = 2" by simp
  then have f: "frame_at (replicate 32768 (0 :: sample)) ((p + n) mod 16384) = replicate 2 0"
    by (simp add: frame_at_def kRightMic_ChannelCount_def)
  have "replicate (2 * n) (0 :: sample) @ replicate 2 0 = replicate (2 * n + 2) 0"
    by (simp only: replicate_add)
  then show ?case
    by (simp add: ring_frames_Suc Suc.IH f)
qed

lemma read_three_copies:
  "RightMic_DoIOOperation kAudioServerPlugInIOOperationReadInput 32769 (replicate 65538 9)
     mapped_driver example_world_writer_ahead
   = Inl (ProtectionFault mapped_driver example_world_writer_ahead
            \<lparr> outBuffer = replicate 65538 0,
              copies = [(0, 0, 131072), (32768, 0, 131072), (65536, 0, 8)] \<rparr>)"
proof -
  let ?w = example_world_writer_ahead
  have re: "reopen_if_unmapped mapped_driver ?w = (mapped_driver, ?w)"
    by (simp add: reopen_if_unmapped_def mapped_driver_def)
  have h: "readHead (header (region ?w)) = 0" "ringData (region ?w) = replicate 32768 0"
    by (simp_all add: example_world_writer_ahead_def)
  have u: "unat (32769 :: UInt32) = 32769" by simp
  have o: "ring_frames (replicate 32768 0) (unat (0 :: UInt64)) 32769
           = replicate 65538 (0 :: sample)"
    by (simp add: ring_frames_silent)
  have "RightMic_DoIOOperation kAudioServerPlugInIOOperationReadInput 32769
          (replicate 65538 9) mapped_driver ?w
        = Inl (ProtectionFault mapped_driver ?w
                 \<lparr> outBuffer = ring_frames (ringData (region ?w))
                                 (unat (readHead (header (region ?w)))) (unat (32769 :: UInt32)),
                   copies = chunk_plan (readHead (header (region ?w))) 32769 0 \<rparr>)"
    by (rule DoIOOperation_frames [OF re])
       (simp_all add: mapped_driver_def example_world_writer_ahead_def region_sized_def
          available_frames_def kRightMic_RingBufferFrames_def kRightMic_ChannelCount_def)
  then show ?thesis
    unfolding h u o chunk_plan_three .
qed

theorem C3_counterexample:
  "0 mod kRightMic_RingBufferFrames + unat (32769 :: UInt32) > kRightMic_RingBufferFrames
   \<and> ucast (32769 :: UInt32)
       \<le> available_frames (writeHead (header (region example_world_writer_ahead)))
            (readHead (header (region example_world_writer_ahead)))
   \<and> RightMic_DoIOOperation kAudioServerPlugInIOOperationReadInput 32769 (replicate 65538 9)
        mapped_driver example_world_writer_ahead
      = Inl (ProtectionFault mapped_driver example_world_writer_ahead
               \<lparr> outBuffer = replicate 65538 0,
                 copies = [(0, 0, 131072), (32768, 0, 131072), (65536, 0, 8)] \<rparr>)
   \<and> RightMic_DoIOOperation kAudioServerPlugInIOOperationReadInput 0 []
        mapped_driver example_world_writer_ahead
      = Inl (ProtectionFault mapped_driver example_world_writer_ahead
               \<lparr> outBuffer = [], copies = [] \<rparr>)"
proof -
  have "ucast (32769 :: UInt32)
          \<le> available_frames (writeHead (header (region example_world_writer_ahead)))
               (readHead (header (region example_world_writer_ahead)))"
    by (simp add: example_world_writer_ahead_def available_frames_def)
  then show ?thesis
    using read_nothing read_three_copies by (simp add: kRightMic_RingBufferFrames_def)
qed

section \<open>The clock model\<close>

subsection \<open>Double precision\<close>

text \<open>
  \<open>StartIO\<close> computes the ticks of a period in \<open>Float64\<close>. A finite double is modelled by
  its value, a rational number, and each operation by the exact result rounded to the
  nearest number with a significand of 53 bits, ties to the even significand. The
  exponent is not bounded: this is exact as long as no result lies below \<open>2^-1022\<close> or
  above \<open>2^1023\<close>, and the values the driver computes lie between \<open>2^-9\<close> and \<open>2^64\<close>.
\<close>

definition round_half_even :: "rat \<Rightarrow> int" where
  "round_half_even m =
     (let f = \<lfloor>m\<rfloor>; r = m - of_int f
      in if r < 1 / 2 then f else if 1 / 2 < r then f + 1 else if even f then f else f + 1)"

text \<open>The binary exponent of a positive number, \<open>floor (log2 x)\<close>.\<close>

definition f64_exponent :: "rat \<Rightarrow> int" where
  "f64_exponent x =
     (if 1 \<le> x then bitlen \<lfloor>x\<rfloor> - 1 else - bitlen (\<lceil>1 / x\<rceil> - 1))"

definition f64_round :: "rat \<Rightarrow> rat" where
  "f64_round x =
     (if x = 0 then 0
      else let e = f64_exponent \<bar>x\<bar> - 52
           in sgn x * of_int (round_half_even (\<bar>x\<bar> / 2 powi e)) * 2 powi e)"

lemma round_half_even_of_int [simp]: "round_half_even (of_int k) = k"
  by (simp add: round_half_even_def)

lemma round_half_even_ge: "of_int k \<le> m \<Longrightarrow> k \<le> round_half_even m"
proof -
  assume "of_int k \<le> m"
  then have "k \<le> \<lfloor>m\<rfloor>" by (simp add: le_floor_iff)
  then show ?thesis by (auto simp: round_half_even_def Let_def)
qed

lemma round_half_even_le: "of_int (round_half_even m) \<le> m + 1"
proof -
  have "round_half_even m \<le> \<lfloor>m\<rfloor> + 1"
    by (simp add: round_half_even_def Let_def)
  then have "(of_int (round_half_even m) :: rat) \<le> of_int (\<lfloor>m\<rfloor> + 1)"
    by (simp only: of_int_le_iff)
  also have "\<dots> = of_int \<lfloor>m\<rfloor> + 1" by simp
  also have "\<dots> \<le> m + 1" by simp
  finally show ?thesis .
qed

lemma f64_exponent_le:
  assumes "0 < x"
  shows "2 powi f64_exponent x \<le> x"
proof (cases "1 \<le> x")
  case True
  then have pos: "0 < \<lfloor>x\<rfloor>" by (simp add: less_floor_iff) 
  from bitlen_bounds [OF pos] have b: "2 ^ nat (bitlen \<lfloor>x\<rfloor> - 1) \<le> \<lfloor>x\<rfloor>" by simp
  have nn: "0 \<le> bitlen \<lfloor>x\<rfloor> - 1"
    using pos by (simp add: bitlen_alt_def)
  have "(2::rat) powi (bitlen \<lfloor>x\<rfloor> - 1) = 2 ^ nat (bitlen \<lfloor>x\<rfloor> - 1)"
    by (rule power_int_nonneg_exp [OF nn])
  also have "\<dots> = of_int (2 ^ nat (bitlen \<lfloor>x\<rfloor> - 1))" by simp
  also have "\<dots> \<le> of_int \<lfloor>x\<rfloor>" using b by (simp only: of_int_le_iff)
  also have "\<dots> \<le> x" by simp
  finally show ?thesis using True by (simp add: f64_exponent_def)
next
  case False
  let ?N = "\<lceil>1 / x\<rceil>"
  let ?k = "bitlen (?N - 1)"
  have "1 < 1 / x" using False assms by simp
  then have "1 < ?N" by (simp add: less_ceiling_iff)
  then have pos: "0 < ?N - 1" by simp
  from bitlen_bounds [OF pos] have "?N - 1 < 2 ^ nat ?k" by simp
  then have "?N \<le> 2 ^ nat ?k" by simp
  then have "(of_int ?N :: rat) \<le> 2 ^ nat ?k" by simp
  moreover have "1 / x \<le> of_int ?N" by (rule le_of_int_ceiling)
  ultimately have "1 / x \<le> 2 ^ nat ?k" by (rule order_trans [rotated])
  then have "1 / 2 ^ nat ?k \<le> x"
    using assms by (simp add: field_simps)
  moreover have "(2::rat) powi (- ?k) = 1 / 2 ^ nat ?k"
    by (simp add: power_int_minus_divide power_int_nonneg_exp bitlen_nonneg)
  ultimately show ?thesis using False by (simp add: f64_exponent_def)
qed

text \<open>The scaled significand of a positive number is at least \<open>2^52\<close>.\<close>

lemma significand_ge:
  assumes "0 < x"
  shows "2 ^ 52 \<le> x / 2 powi (f64_exponent x - 52)"
proof -
  have "(2::rat) powi f64_exponent x = 2 powi (f64_exponent x - 52) * 2 powi 52"
    using power_int_add [of "2::rat" "f64_exponent x - 52" 52] by simp
  then have "2 powi (f64_exponent x - 52) * 2 ^ 52 \<le> x"
    using f64_exponent_le [OF assms] by simp
  then have "2 ^ 52 * 2 powi (f64_exponent x - 52) \<le> x"
    by (simp only: mult.commute)
  moreover have "(0::rat) < 2 powi (f64_exponent x - 52)" by simp
  ultimately show ?thesis
    by (simp only: pos_le_divide_eq)
qed

lemma f64_round_pos:
  assumes "0 < x"
  shows "f64_round x
         = of_int (round_half_even (x / 2 powi (f64_exponent x - 52)))
           * 2 powi (f64_exponent x - 52)"
  using assms by (simp add: f64_round_def Let_def)

lemma f64_round_le_double:
  assumes "0 < x"
  shows "f64_round x \<le> 2 * x"
proof -
  let ?s = "(2::rat) powi (f64_exponent x - 52)"
  let ?m = "x / ?s"
  have s: "0 < ?s" by simp
  have "(1::rat) \<le> 2 ^ 52" by simp
  then have "1 \<le> ?m" using significand_ge [OF assms] by (rule order_trans)
  then have "of_int (round_half_even ?m) \<le> 2 * ?m"
    using round_half_even_le [of ?m] by linarith
  then have "of_int (round_half_even ?m) * ?s \<le> 2 * ?m * ?s"
    using s by (simp only: mult_le_cancel_right_pos)
  then show ?thesis
    using s by (simp add: f64_round_pos [OF assms])
qed

lemma f64_round_ge_int:
  assumes "0 < k" and "k < 2 ^ 53" and "of_int k \<le> x"
  shows "of_int k \<le> f64_round x"
proof -
  have x: "0 < x" using assms(1,3) by (smt (verit) of_int_pos order_less_le_trans)
  let ?e = "f64_exponent x - 52"
  let ?s = "(2::rat) powi ?e"
  let ?m = "x / ?s"
  have s: "0 < ?s" by simp
  show ?thesis
  proof (cases "?e \<le> 0")
    case True
    then have "(2::rat) powi (- ?e) = 2 ^ nat (- ?e)"
      by (simp add: power_int_nonneg_exp)
    then have inv: "1 / ?s = of_int (2 ^ nat (- ?e))"
      by (simp add: power_int_minus_divide [symmetric])
    have "of_int k * (1 / ?s) \<le> x * (1 / ?s)"
      using assms(3) s by (intro mult_right_mono) simp_all
    moreover have "x * (1 / ?s) = ?m" by simp
    moreover have "of_int k * (1 / ?s) = (of_int (k * 2 ^ nat (- ?e)) :: rat)"
      by (simp only: inv of_int_mult)
    ultimately have "of_int (k * 2 ^ nat (- ?e)) \<le> ?m"
      by (simp only:)
    then have "k * 2 ^ nat (- ?e) \<le> round_half_even ?m"
      by (rule round_half_even_ge)
    then have "(of_int (k * 2 ^ nat (- ?e)) :: rat) \<le> of_int (round_half_even ?m)"
      by (simp only: of_int_le_iff)
    then have "of_int (k * 2 ^ nat (- ?e)) * ?s \<le> of_int (round_half_even ?m) * ?s"
      using s by (simp only: mult_le_cancel_right_pos)
    moreover have "of_int (k * 2 ^ nat (- ?e)) * ?s = of_int k"
    proof -
      have "(of_int (2 ^ nat (- ?e)) :: rat) * ?s = 1 / ?s * ?s" by (simp only: inv)
      also have "\<dots> = 1" using s by simp
      finally have one: "(of_int (2 ^ nat (- ?e)) :: rat) * ?s = 1" .
      have "of_int (k * 2 ^ nat (- ?e)) * ?s = of_int k * (of_int (2 ^ nat (- ?e)) * ?s)"
        by (simp only: of_int_mult mult.assoc)
      then show ?thesis by (simp only: one mult_1_right)
    qed
    ultimately have "of_int k \<le> of_int (round_half_even ?m) * ?s" by (simp only:)
    then show ?thesis by (simp only: f64_round_pos [OF x])
  next
    case False
    then have e: "1 \<le> ?e" by simp
    have "(2::rat) ^ 52 = of_int (2 ^ 52)" by simp
    then have "of_int (2 ^ 52) \<le> ?m" using significand_ge [OF x] by simp
    then have "2 ^ 52 \<le> round_half_even ?m" by (rule round_half_even_ge)
    then have "(of_int (2 ^ 52) :: rat) \<le> of_int (round_half_even ?m)"
      by (simp only: of_int_le_iff)
    then have a: "2 ^ 52 * ?s \<le> of_int (round_half_even ?m) * ?s"
      using s by simp
    have "(2::rat) powi 1 \<le> ?s"
      by (rule power_int_increasing [OF e]) simp
    then have "(2::rat) ^ 53 \<le> 2 ^ 52 * ?s" by simp
    moreover have "(of_int k :: rat) \<le> 2 ^ 53"
    proof -
      have "k \<le> 2 ^ 53" using assms(2) by simp
      then have "(of_int k :: rat) \<le> of_int (2 ^ 53)" by (simp only: of_int_le_iff)
      then show ?thesis by simp
    qed
    ultimately have "of_int k \<le> of_int (round_half_even ?m) * ?s"
      using a by linarith
    then show ?thesis by (simp only: f64_round_pos [OF x])
  qed
qed

lemma f64_round_exact_scaled:
  assumes "n < 2 ^ 53"
  shows "f64_round (of_nat (n * 512)) = of_nat (n * 512)"
proof (cases "n = 0")
  case True
  then show ?thesis by (simp add: f64_round_def)
next
  case False
  let ?x = "of_nat (n * 512) :: rat"
  let ?e = "f64_exponent ?x - 52"
  let ?s = "(2::rat) powi ?e"
  have x: "0 < ?x" using False by simp
  have s: "0 < ?s" by simp
  have "n * 512 < 2 ^ 53 * 512" using assms by simp
  then have "n * 512 < 2 ^ 62" by simp
  then have "?x < of_nat (2 ^ 62)" by (simp only: of_nat_less_iff)
  then have lt: "?x < 2 powi 62" by simp
  have e: "?e \<le> 9"
  proof (rule ccontr)
    assume "\<not> ?e \<le> 9"
    then have "62 \<le> f64_exponent ?x" by simp
    then have "(2::rat) powi 62 \<le> 2 powi f64_exponent ?x"
      by (rule power_int_increasing) simp
    with f64_exponent_le [OF x] lt show False by linarith
  qed
  have "(2::rat) powi 9 = 2 powi (9 - ?e) * ?s"
    using power_int_add [of "2::rat" "9 - ?e" ?e] by simp
  moreover have "(2::rat) powi (9 - ?e) = 2 ^ nat (9 - ?e)"
    using e by (simp add: power_int_nonneg_exp)
  ultimately have nine: "(2::rat) ^ 9 = 2 ^ nat (9 - ?e) * ?s" by simp
  have "?x = of_nat n * 2 ^ 9" by simp
  also have "\<dots> = of_nat n * (2 ^ nat (9 - ?e) * ?s)" by (simp only: nine)
  also have "\<dots> = of_int (int n * 2 ^ nat (9 - ?e)) * ?s" by simp
  finally have split: "?x = of_int (int n * 2 ^ nat (9 - ?e)) * ?s" .
  then have "?x / ?s = of_int (int n * 2 ^ nat (9 - ?e)) * ?s / ?s" by (simp only:)
  also have "\<dots> = of_int (int n * 2 ^ nat (9 - ?e))" using s by simp
  finally have m: "?x / ?s = of_int (int n * 2 ^ nat (9 - ?e))" .
  have "f64_round ?x = of_int (round_half_even (?x / ?s)) * ?s"
    by (rule f64_round_pos [OF x])
  also have "\<dots> = of_int (int n * 2 ^ nat (9 - ?e)) * ?s"
    by (simp only: m round_half_even_of_int)
  also have "\<dots> = ?x" by (simp only: split [symmetric])
  finally show ?thesis .
qed

subsection \<open>Values that cross the interface of the host\<close>

text \<open>
  A \<open>Float64\<close> handed over by the host may be any double. The two zeros compare equal and
  are one value here.
\<close>

datatype Float64 = Finite rat | Infinity bool | NaN

text \<open>The comparison \<open>!=\<close> of C on doubles: a NaN differs from everything.\<close>

definition f64_ne :: "Float64 \<Rightarrow> Float64 \<Rightarrow> bool" where
  "f64_ne a b \<longleftrightarrow> a = NaN \<or> b = NaN \<or> a \<noteq> b"

definition kRightMic_SampleRate :: rat where
  "kRightMic_SampleRate = 48000"

text \<open>The conversion \<open>(Float64)\<close> of a 64-bit unsigned integer rounds to 53 bits.\<close>

definition f64_of_u64 :: "UInt64 \<Rightarrow> Float64" where
  "f64_of_u64 x = Finite (f64_round (of_nat (unat x)))"

subsection \<open>Starting, stopping and the zero time stamp\<close>

datatype fault = DivisionByZero | UndefinedConversion

text \<open>Line 929: the nanoseconds of a period, computed in double precision.\<close>

definition nsPerPeriod :: rat where
  "nsPerPeriod =
     f64_round (f64_round (of_nat kRightMic_BufferFrameSize / kRightMic_SampleRate)
                * 1000000000)"

text \<open>
  Line 930: the product with \<open>denom\<close> and the quotient by \<open>numer\<close> are rounded in turn; the
  conversion to \<open>uint64_t\<close> truncates. With \<open>numer = 0\<close> the quotient is infinite or not a
  number, and a value of \<open>2^64\<close> or more does not fit: the conversion is undefined in C.
\<close>

definition host_ticks_per_period :: "mach_timebase_info_data_t \<Rightarrow> UInt64 option" where
  "host_ticks_per_period tb =
     (if numer tb = 0 then None
      else
        let x = f64_round (f64_round (nsPerPeriod * of_nat (unat (denom tb)))
                           / of_nat (unat (numer tb)))
        in if x < 2 ^ 64 then Some (word_of_int \<lfloor>x\<rfloor>) else None)"

text \<open>\<open>RightMic_Initialize\<close> stores the timebase \<open>mach_timebase_info\<close> reports.\<close>

definition RightMic_Initialize :: "mach_timebase_info_data_t \<Rightarrow> driver \<Rightarrow> OSStatus \<times> driver" where
  "RightMic_Initialize timebase s = (kAudioHardwareNoError, s\<lparr> sTimebaseInfo := timebase \<rparr>)"

text \<open>
  \<open>RightMic_StartIO\<close> and \<open>RightMic_GetZeroTimeStamp\<close> read the clock of the host; the
  value \<open>mach_absolute_time\<close> returns is their first argument.
\<close>

definition RightMic_StartIO ::
  "UInt64 \<Rightarrow> driver \<Rightarrow> world \<Rightarrow> fault + (OSStatus \<times> driver \<times> world)" where
  "RightMic_StartIO mach_absolute_time s w =
     (case host_ticks_per_period (sTimebaseInfo s) of
        None \<Rightarrow> Inl UndefinedConversion
      | Some ticks \<Rightarrow>
          let s1 = s\<lparr> sIO_StartHostTime := mach_absolute_time,
                      sIO_HostTicksPerPeriod := ticks \<rparr>;
              (s2, w2) = RightMic_OpenSharedMemory s1 w
          in Inr (kAudioHardwareNoError, s2\<lparr> sDeviceIsRunning := True \<rparr>, w2))"

definition RightMic_StopIO :: "driver \<Rightarrow> world \<Rightarrow> OSStatus \<times> driver \<times> world" where
  "RightMic_StopIO s w =
     (let (s1, w1) = RightMic_CloseSharedMemory (s\<lparr> sDeviceIsRunning := False \<rparr>) w
      in (kAudioHardwareNoError, s1, w1))"

text \<open>
  \<open>RightMic_GetZeroTimeStamp\<close>: the status, \<open>outSampleTime\<close>, \<open>outHostTime\<close> and \<open>outSeed\<close>.
  The division has no guard in the source; a zero divisor is the fault \<open>DivisionByZero\<close>.
\<close>

definition RightMic_GetZeroTimeStamp ::
  "UInt64 \<Rightarrow> driver \<Rightarrow> fault + (OSStatus \<times> Float64 \<times> UInt64 \<times> UInt64)" where
  "RightMic_GetZeroTimeStamp mach_absolute_time s =
     (let currentHostTime = mach_absolute_time;
          ticksSinceStart = currentHostTime - sIO_StartHostTime s
      in if sIO_HostTicksPerPeriod s = 0 then Inl DivisionByZero
         else
           let numPeriods = ticksSinceStart div sIO_HostTicksPerPeriod s
           in Inr (kAudioHardwareNoError,
                   f64_of_u64 (numPeriods * word_of_nat kRightMic_BufferFrameSize),
                   sIO_StartHostTime s + numPeriods * sIO_HostTicksPerPeriod s,
                   1))"

subsection \<open>The ticks of a period for given timebases\<close>

lemma nsPerPeriod_value: "nsPerPeriod = 5726623061333333 / 536870912"
  unfolding nsPerPeriod_def kRightMic_BufferFrameSize_def kRightMic_SampleRate_def
  by code_simp

lemma ticks_rounded:
  "f64_round (f64_round nsPerPeriod) = 5726623061333333 / 536870912"
  "f64_round (f64_round (nsPerPeriod * 3) / 125) = 256000"
  "f64_round (f64_round nsPerPeriod / 10000000) = 4803839602528529 / 4503599627370496"
  "f64_round (f64_round nsPerPeriod / 1000000000) = 6148914691236517 / 576460752303423488"
  unfolding nsPerPeriod_value by code_simp+

lemma ticks_truncated:
  "\<lfloor>5726623061333333 / 536870912 :: rat\<rfloor> = 10666666"
  "\<lfloor>4803839602528529 / 4503599627370496 :: rat\<rfloor> = 1"
  "\<lfloor>6148914691236517 / 576460752303423488 :: rat\<rfloor> = 0"
  by code_simp+

text \<open>
  The timebases of the known hosts, 1/1 and 125/3, and two with long ticks: one tick in
  ten milliseconds, one tick in a second.
\<close>

lemma ticks_intel: "host_ticks_per_period \<lparr> numer = 1, denom = 1 \<rparr> = Some 10666666"
  by (simp add: host_ticks_per_period_def ticks_rounded ticks_truncated)

lemma ticks_apple_silicon: "host_ticks_per_period \<lparr> numer = 125, denom = 3 \<rparr> = Some 256000"
  by (simp add: host_ticks_per_period_def ticks_rounded)

lemma ticks_centisecond: "host_ticks_per_period \<lparr> numer = 10000000, denom = 1 \<rparr> = Some 1"
  by (simp add: host_ticks_per_period_def ticks_rounded ticks_truncated)

lemma ticks_slow_clock: "host_ticks_per_period \<lparr> numer = 1000000000, denom = 1 \<rparr> = Some 0"
  by (simp add: host_ticks_per_period_def ticks_rounded ticks_truncated)


lemma nsPerPeriod_bounds: "10666666 \<le> nsPerPeriod" "nsPerPeriod < 2 ^ 24"
  unfolding nsPerPeriod_value by simp_all

lemma host_ticks_positive:
  assumes "numer tb \<noteq> 0"
    and "unat (numer tb) \<le> 10666666 * unat (denom tb)"
  shows "\<exists>t. host_ticks_per_period tb = Some t \<and> t \<noteq> 0"
proof -
  define n where "n = unat (numer tb)"
  define d where "d = unat (denom tb)"
  define y1 where "y1 = f64_round (nsPerPeriod * of_nat d)"
  define y2 where "y2 = f64_round (y1 / of_nat n)"
  have n: "0 < n" using assms(1) by (simp add: n_def unat_gt_0)
  have n32: "n < 2 ^ 32" using unsigned_less [of "numer tb"] by (simp add: n_def)
  have d32: "d < 2 ^ 32" using unsigned_less [of "denom tb"] by (simp add: d_def)
  have nd: "n \<le> 10666666 * d" using assms(2) by (simp add: n_def d_def)
  have d: "0 < d" using n nd by (cases "d = 0") simp_all
  have cd: "0 < nsPerPeriod * of_nat d"
    using d nsPerPeriod_bounds(1) by (simp add: zero_less_mult_iff)
  have "(of_nat n :: rat) \<le> of_nat (10666666 * d)"
    using nd by (simp only: of_nat_le_iff)
  also have "\<dots> = 10666666 * of_nat d" by simp
  also have "\<dots> \<le> nsPerPeriod * of_nat d"
    using nsPerPeriod_bounds(1) by (intro mult_right_mono) simp_all
  finally have "of_int (int n) \<le> nsPerPeriod * of_nat d" by simp
  moreover have "int n < 2 ^ 53" using n32 by simp
  ultimately have "of_int (int n) \<le> y1"
    unfolding y1_def using n by (intro f64_round_ge_int) simp_all
  then have y1: "of_nat n \<le> y1" by simp
  have npos: "(0::rat) < of_nat n" using n by simp
  have q: "1 \<le> y1 / of_nat n" using y1 npos by (simp only: pos_le_divide_eq mult_1)
  have "of_int 1 \<le> y2"
    unfolding y2_def by (rule f64_round_ge_int) (use q in simp_all)
  then have y2: "1 \<le> y2" by simp
  have "y1 \<le> 2 * (nsPerPeriod * of_nat d)"
    unfolding y1_def by (rule f64_round_le_double [OF cd])
  also have "\<dots> \<le> 2 * (2 ^ 24 * of_nat d)"
    using nsPerPeriod_bounds(2) by (intro mult_left_mono mult_right_mono) simp_all
  also have "\<dots> \<le> 2 * (2 ^ 24 * 2 ^ 32)"
  proof -
    have "d \<le> 2 ^ 32" using d32 by simp
    then have "(of_nat d :: rat) \<le> of_nat (2 ^ 32)" by (simp only: of_nat_le_iff)
    then show ?thesis by simp
  qed
  finally have y1u: "y1 \<le> 2 ^ 57" by simp
  have y1pos: "0 \<le> y1" using y1 npos by linarith
  have "y1 / of_nat n \<le> y1 / 1"
    using n y1pos by (intro divide_left_mono) simp_all
  then have qu: "y1 / of_nat n \<le> 2 ^ 57" using y1u by simp
  have qpos: "0 < y1 / of_nat n" using q by linarith
  have "y2 \<le> 2 * (y1 / of_nat n)"
    unfolding y2_def by (rule f64_round_le_double [OF qpos])
  then have y2u: "y2 < 2 ^ 64" using qu by simp
  have f1: "1 \<le> \<lfloor>y2\<rfloor>" using y2 by (simp add: le_floor_iff)
  have f2: "\<lfloor>y2\<rfloor> < 2 ^ 64" using y2u by (simp add: floor_less_iff)
  have "\<not> (2 ^ LENGTH(64) :: int) dvd \<lfloor>y2\<rfloor>"
    using f1 f2 by (simp add: zdvd_not_zless)
  then have nz: "(word_of_int \<lfloor>y2\<rfloor> :: UInt64) \<noteq> 0"
    by (simp only: word_of_int_eq_0_iff not_False_eq_True)
  have "host_ticks_per_period tb
        = (if y2 < 2 ^ 64 then Some (word_of_int \<lfloor>y2\<rfloor>) else None)"
    unfolding host_ticks_per_period_def Let_def y2_def y1_def n_def d_def
    using assms(1) by (simp only: if_False)
  then show ?thesis using y2u nz by simp
qed

subsection \<open>The arithmetic of the time stamp\<close>

lemma frame_size64: "(word_of_nat kRightMic_BufferFrameSize :: UInt64) = 512"
  by (simp add: kRightMic_BufferFrameSize_def)

lemma time_stamp_arith:
  fixes start now ticks :: UInt64
  assumes "ticks \<noteq> 0" and "start \<le> now"
  defines "periods \<equiv> (now - start) div ticks"
  shows "unat periods = (unat now - unat start) div unat ticks"
    and "unat (periods * ticks) = unat periods * unat ticks"
    and "unat (start + periods * ticks) = unat start + unat periods * unat ticks"
    and "unat start + unat periods * unat ticks \<le> unat now"
    and "unat now < unat start + unat periods * unat ticks + unat ticks"
proof -
  have t: "0 < unat ticks" using assms(1) by (simp add: unat_gt_0)
  have le: "unat start \<le> unat now" using assms(2) by (simp add: word_le_nat_alt)
  have diff: "unat (now - start) = unat now - unat start"
    using assms(2) by (simp add: unat_sub)
  show p: "unat periods = (unat now - unat start) div unat ticks"
    by (simp add: periods_def unat_div diff)
  have m: "unat periods * unat ticks \<le> unat now - unat start"
    by (simp add: p)
  have now: "unat now < 2 ^ 64" using unsigned_less [of now] by simp
  have "unat periods * unat ticks < 2 ^ LENGTH(64)" using m now by simp
  then show pm: "unat (periods * ticks) = unat periods * unat ticks"
    by (simp only: unat_mult_lem)
  have "unat start + unat (periods * ticks) < 2 ^ LENGTH(64)"
    using m now le by (simp add: pm)
  then have "unat (start + periods * ticks) = unat start + unat (periods * ticks)"
    by (simp only: unat_add_lem)
  then show "unat (start + periods * ticks) = unat start + unat periods * unat ticks"
    by (simp add: pm)
  show "unat start + unat periods * unat ticks \<le> unat now"
    using m le by simp
  have "(unat now - unat start) mod unat ticks < unat ticks" using t by simp
  moreover have "unat now - unat start
      = unat periods * unat ticks + (unat now - unat start) mod unat ticks"
    by (simp add: p)
  ultimately show "unat now < unat start + unat periods * unat ticks + unat ticks"
    using le by linarith
qed

lemma sample_time_exact:
  assumes "unat periods < 2 ^ 53"
  shows "f64_of_u64 (periods * word_of_nat kRightMic_BufferFrameSize)
         = Finite (of_nat (unat periods * kRightMic_BufferFrameSize))"
proof -
  have "unat periods * 512 < 2 ^ 53 * 512" using assms by simp
  then have "unat periods * unat (512 :: UInt64) < 2 ^ LENGTH(64)" by simp
  then have "unat (periods * 512) = unat periods * unat (512 :: UInt64)"
    by (simp only: unat_mult_lem)
  then have u: "unat (periods * 512) = unat periods * 512" by simp
  have "f64_of_u64 (periods * 512) = Finite (f64_round (of_nat (unat periods * 512)))"
    by (simp only: f64_of_u64_def u)
  also have "\<dots> = Finite (of_nat (unat periods * 512))"
    by (simp only: f64_round_exact_scaled [OF assms])
  finally show ?thesis
    by (simp add: kRightMic_BufferFrameSize_def)
qed

section \<open>Claims about the clock\<close>

text \<open>
  C4, as amended. When the ticks of a period are not zero and the clock of the host has
  not gone back behind the start, the query returns, and its host time is the start plus
  the whole periods elapsed: never later than now, and less than one period before it.
  When fewer than \<open>2^53\<close> periods have elapsed, the sample position is the number of
  periods times 512. In particular at \<open>T0 + 3 * ticks + eps\<close> with \<open>eps\<close> less than a period
  the query returns the sample position \<open>3 * 512\<close> and the host time \<open>T0 + 3 * ticks\<close>.
\<close>

theorem C4_zero_time_stamp_quantized:
  assumes "sIO_HostTicksPerPeriod s \<noteq> 0"
    and "sIO_StartHostTime s \<le> now"
  shows "(\<exists>sampleTime.
           RightMic_GetZeroTimeStamp now s
             = Inr (kAudioHardwareNoError, sampleTime,
                    sIO_StartHostTime s
                      + (now - sIO_StartHostTime s) div sIO_HostTicksPerPeriod s
                        * sIO_HostTicksPerPeriod s,
                    1)
           \<and> (unat ((now - sIO_StartHostTime s) div sIO_HostTicksPerPeriod s) < 2 ^ 53 \<longrightarrow>
                sampleTime
                = Finite (of_nat (unat ((now - sIO_StartHostTime s) div sIO_HostTicksPerPeriod s)
                                  * kRightMic_BufferFrameSize))))
         \<and> unat ((now - sIO_StartHostTime s) div sIO_HostTicksPerPeriod s)
             = (unat now - unat (sIO_StartHostTime s)) div unat (sIO_HostTicksPerPeriod s)
         \<and> unat (sIO_StartHostTime s
                  + (now - sIO_StartHostTime s) div sIO_HostTicksPerPeriod s
                    * sIO_HostTicksPerPeriod s)
             = unat (sIO_StartHostTime s)
               + (unat now - unat (sIO_StartHostTime s)) div unat (sIO_HostTicksPerPeriod s)
                 * unat (sIO_HostTicksPerPeriod s)
         \<and> unat (sIO_StartHostTime s
                  + (now - sIO_StartHostTime s) div sIO_HostTicksPerPeriod s
                    * sIO_HostTicksPerPeriod s) \<le> unat now
         \<and> unat now
             < unat (sIO_StartHostTime s
                     + (now - sIO_StartHostTime s) div sIO_HostTicksPerPeriod s
                       * sIO_HostTicksPerPeriod s)
               + unat (sIO_HostTicksPerPeriod s)
         \<and> (unat now = unat (sIO_StartHostTime s) + 3 * unat (sIO_HostTicksPerPeriod s) + eps
              \<and> eps < unat (sIO_HostTicksPerPeriod s) \<longrightarrow>
              (\<exists>hostTime.
                 RightMic_GetZeroTimeStamp now s
                   = Inr (kAudioHardwareNoError, Finite (3 * 512), hostTime, 1)
                 \<and> unat hostTime
                     = unat (sIO_StartHostTime s) + 3 * unat (sIO_HostTicksPerPeriod s)))"
proof -
  let ?start = "sIO_StartHostTime s" and ?ticks = "sIO_HostTicksPerPeriod s"
  let ?periods = "(now - ?start) div ?ticks"
  note ar = time_stamp_arith [OF assms]
  have r: "RightMic_GetZeroTimeStamp now s
           = Inr (kAudioHardwareNoError,
                  f64_of_u64 (?periods * word_of_nat kRightMic_BufferFrameSize),
                  ?start + ?periods * ?ticks, 1)"
    using assms(1) by (simp add: RightMic_GetZeroTimeStamp_def Let_def)
  have three: "unat ?periods = 3"
    if "unat now = unat ?start + 3 * unat ?ticks + eps \<and> eps < unat ?ticks"
  proof -
    have "(3 * unat ?ticks + eps) div unat ?ticks = 3"
      using that by simp
    then show ?thesis using that by (simp add: ar(1))
  qed
  show ?thesis
  proof (intro conjI impI)
    show "\<exists>sampleTime.
           RightMic_GetZeroTimeStamp now s
             = Inr (kAudioHardwareNoError, sampleTime, ?start + ?periods * ?ticks, 1)
           \<and> (unat ?periods < 2 ^ 53 \<longrightarrow>
                sampleTime = Finite (of_nat (unat ?periods * kRightMic_BufferFrameSize)))"
      using r sample_time_exact [of ?periods] by simp
    show "unat ?periods = (unat now - unat ?start) div unat ?ticks" by (rule ar(1))
    show "unat (?start + ?periods * ?ticks)
          = unat ?start + (unat now - unat ?start) div unat ?ticks * unat ?ticks"
      using ar(3) by (simp add: ar(1))
    show "unat (?start + ?periods * ?ticks) \<le> unat now"
      using ar(4) by (simp add: ar(3))
    show "unat now < unat (?start + ?periods * ?ticks) + unat ?ticks"
      using ar(5) by (simp add: ar(3))
  next
    assume a: "unat now = unat ?start + 3 * unat ?ticks + eps \<and> eps < unat ?ticks"
    have p: "unat ?periods = 3" by (rule three [OF a])
    then have "unat ?periods < 2 ^ 53" by simp
    then have "f64_of_u64 (?periods * word_of_nat kRightMic_BufferFrameSize)
               = Finite (of_nat (unat ?periods * kRightMic_BufferFrameSize))"
      by (rule sample_time_exact)
    then have st: "f64_of_u64 (?periods * word_of_nat kRightMic_BufferFrameSize)
                   = Finite (3 * 512)"
      by (simp add: p kRightMic_BufferFrameSize_def)
    show "\<exists>hostTime.
            RightMic_GetZeroTimeStamp now s
              = Inr (kAudioHardwareNoError, Finite (3 * 512), hostTime, 1)
            \<and> unat hostTime = unat ?start + 3 * unat ?ticks"
      using r st ar(3) by (simp add: p)
  qed
qed

text \<open>
  The globals after \<open>RightMic_Initialize\<close> and \<open>RightMic_StartIO\<close> in the example world,
  for a timebase, a start time and the ticks computed from the timebase.
\<close>

definition started_driver :: "mach_timebase_info_data_t \<Rightarrow> UInt64 \<Rightarrow> UInt64 \<Rightarrow> driver" where
  "started_driver timebase t0 ticks =
     \<lparr> sDeviceIsRunning = True, sTimebaseInfo = timebase,
       sIO_StartHostTime = t0, sIO_HostTicksPerPeriod = ticks,
       sShm_FD = 3, sShm_Ptr = MAPPED PROT_READ, sRingHeader = IN_REGION PROT_READ,
       sRingData = IN_REGION PROT_READ \<rparr>"

lemma StartIO_example:
  assumes "host_ticks_per_period timebase = Some ticks"
  shows "RightMic_StartIO t0 (snd (RightMic_Initialize timebase driver_init)) example_world
         = Inr (kAudioHardwareNoError, started_driver timebase t0 ticks,
                example_world\<lparr> syscalls := [Sys_open, Sys_mmap] \<rparr>)"
  using assms
  by (simp add: RightMic_StartIO_def RightMic_Initialize_def driver_init_def
      RightMic_OpenSharedMemory_def example_world_def started_driver_def)

theorem C4_witness:
  "sIO_HostTicksPerPeriod (started_driver \<lparr> numer = 125, denom = 3 \<rparr> 1000 256000) \<noteq> 0
   \<and> sIO_StartHostTime (started_driver \<lparr> numer = 125, denom = 3 \<rparr> 1000 256000) \<le> 769017
   \<and> RightMic_StartIO 1000
        (snd (RightMic_Initialize \<lparr> numer = 125, denom = 3 \<rparr> driver_init)) example_world
      = Inr (kAudioHardwareNoError, started_driver \<lparr> numer = 125, denom = 3 \<rparr> 1000 256000,
             example_world\<lparr> syscalls := [Sys_open, Sys_mmap] \<rparr>)
   \<and> RightMic_GetZeroTimeStamp 769017 (started_driver \<lparr> numer = 125, denom = 3 \<rparr> 1000 256000)
      = Inr (kAudioHardwareNoError, Finite 1536, 769000, 1)"
proof -
  let ?s = "started_driver \<lparr> numer = 125, denom = 3 \<rparr> 1000 256000"
  have t: "sIO_HostTicksPerPeriod ?s = 256000" and st: "sIO_StartHostTime ?s = 1000"
    by (simp_all add: started_driver_def)
  have a: "sIO_HostTicksPerPeriod ?s \<noteq> 0" by (simp add: t)
  have b: "sIO_StartHostTime ?s \<le> 769017" by (simp add: st)
  have p: "(769017 - 1000) div (256000 :: UInt64) = 3" by simp
  from C4_zero_time_stamp_quantized [OF a b, of 17]
  have "\<exists>sampleTime.
           RightMic_GetZeroTimeStamp 769017 ?s
             = Inr (kAudioHardwareNoError, sampleTime,
                    sIO_StartHostTime ?s
                      + (769017 - sIO_StartHostTime ?s) div sIO_HostTicksPerPeriod ?s
                        * sIO_HostTicksPerPeriod ?s,
                    1)
           \<and> (unat ((769017 - sIO_StartHostTime ?s) div sIO_HostTicksPerPeriod ?s) < 2 ^ 53 \<longrightarrow>
                sampleTime
                = Finite (of_nat (unat ((769017 - sIO_StartHostTime ?s) div sIO_HostTicksPerPeriod ?s)
                                  * kRightMic_BufferFrameSize)))"
    by blast
  then have "RightMic_GetZeroTimeStamp 769017 ?s
             = Inr (kAudioHardwareNoError, Finite 1536, 769000, 1)"
    unfolding t st p by (auto simp: kRightMic_BufferFrameSize_def)
  then show ?thesis
    using a b StartIO_example [OF ticks_apple_silicon, of 1000] by simp
qed

text \<open>
  The claim as it stands fails where a double cannot hold the sample position. With a
  timebase of one tick in ten milliseconds \<open>StartIO\<close> stores one tick for a period;
  \<open>2^53 + 1\<close> ticks after the start the query returns the sample position \<open>2^62\<close>, not
  \<open>(2^53 + 1) * 512\<close>.
\<close>

lemma sample_time_rounded: "f64_round 4611686018427388416 = 4611686018427387904"
  by code_simp

theorem C4_counterexample:
  "RightMic_StartIO 0
     (snd (RightMic_Initialize \<lparr> numer = 10000000, denom = 1 \<rparr> driver_init)) example_world
   = Inr (kAudioHardwareNoError, started_driver \<lparr> numer = 10000000, denom = 1 \<rparr> 0 1,
          example_world\<lparr> syscalls := [Sys_open, Sys_mmap] \<rparr>)
   \<and> RightMic_GetZeroTimeStamp 9007199254740993
        (started_driver \<lparr> numer = 10000000, denom = 1 \<rparr> 0 1)
      = Inr (kAudioHardwareNoError, Finite 4611686018427387904, 9007199254740993, 1)
   \<and> Finite 4611686018427387904
      \<noteq> Finite (of_nat (unat ((9007199254740993 - 0) div (1 :: UInt64))
                         * kRightMic_BufferFrameSize))"
proof -
  have "RightMic_GetZeroTimeStamp 9007199254740993
          (started_driver \<lparr> numer = 10000000, denom = 1 \<rparr> 0 1)
        = Inr (kAudioHardwareNoError, Finite 4611686018427387904, 9007199254740993, 1)"
    by (simp add: RightMic_GetZeroTimeStamp_def started_driver_def f64_of_u64_def
        kRightMic_BufferFrameSize_def sample_time_rounded)
  then show ?thesis
    using StartIO_example [OF ticks_centisecond, of 0]
    by (simp add: kRightMic_BufferFrameSize_def)
qed

text \<open>
  C5, as amended. After a query with fewer than \<open>2^53\<close> periods elapsed, the host time
  lies \<open>(samplePosition / 512) * ticks\<close> after the start, where \<open>ticks\<close> is the whole
  number of ticks \<open>StartIO\<close> stored for a period. This is the duration of
  \<open>samplePosition\<close> frames at 48000 Hz in ticks of the host (seconds times \<open>10^9\<close> times
  \<open>denom / numer\<close>) exactly when the sample position is 0 or a period is exactly \<open>ticks\<close>
  ticks long, that is when \<open>ticks * numer * 48000 = 512 * 10^9 * denom\<close>.
\<close>

theorem C5_time_stamp_pair_consistent:
  assumes "sIO_HostTicksPerPeriod s \<noteq> 0"
    and "sIO_StartHostTime s \<le> now"
    and "unat ((now - sIO_StartHostTime s) div sIO_HostTicksPerPeriod s) < 2 ^ 53"
  shows "\<exists>samplePosition hostTime.
           RightMic_GetZeroTimeStamp now s
             = Inr (kAudioHardwareNoError, Finite samplePosition, hostTime, 1)
           \<and> of_nat (unat hostTime - unat (sIO_StartHostTime s))
               = samplePosition / of_nat kRightMic_BufferFrameSize
                 * of_nat (unat (sIO_HostTicksPerPeriod s))
           \<and> (numer (sTimebaseInfo s) \<noteq> 0 \<longrightarrow>
               (samplePosition / kRightMic_SampleRate * 1000000000
                  * of_nat (unat (denom (sTimebaseInfo s)))
                  / of_nat (unat (numer (sTimebaseInfo s)))
                = of_nat (unat hostTime - unat (sIO_StartHostTime s)))
               = (samplePosition = 0
                  \<or> of_nat (unat (sIO_HostTicksPerPeriod s))
                      * of_nat (unat (numer (sTimebaseInfo s))) * kRightMic_SampleRate
                    = of_nat kRightMic_BufferFrameSize * 1000000000
                      * of_nat (unat (denom (sTimebaseInfo s)))))"
proof -
  let ?start = "sIO_StartHostTime s" and ?ticks = "sIO_HostTicksPerPeriod s"
  let ?periods = "(now - ?start) div ?ticks"
  define p where "p = unat ?periods"
  define t where "t = unat ?ticks"
  define nu where "nu = unat (numer (sTimebaseInfo s))"
  define de where "de = unat (denom (sTimebaseInfo s))"
  note ar = time_stamp_arith [OF assms(1,2)]
  have r: "RightMic_GetZeroTimeStamp now s
           = Inr (kAudioHardwareNoError, Finite (of_nat (p * 512)), ?start + ?periods * ?ticks, 1)"
    using assms(1) sample_time_exact [OF assms(3)]
    by (simp add: RightMic_GetZeroTimeStamp_def Let_def p_def kRightMic_BufferFrameSize_def)
  have el: "unat (?start + ?periods * ?ticks) - unat ?start = p * t"
    using ar(3) by (simp add: p_def t_def)
  have one: "(of_nat (p * t) :: rat) = of_nat (p * 512) / of_nat 512 * of_nat t"
    by simp
  have two: "((of_nat (p * 512) :: rat) / 48000 * 1000000000 * of_nat de / of_nat nu
              = of_nat (p * t))
             = ((of_nat (p * 512) :: rat) = 0
                \<or> (of_nat t :: rat) * of_nat nu * 48000 = of_nat 512 * 1000000000 * of_nat de)"
    if nz: "nu \<noteq> 0"
  proof -
    have n0: "(of_nat nu :: rat) \<noteq> 0" using nz by simp
    have "((of_nat (p * 512) :: rat) / 48000 * 1000000000 * of_nat de / of_nat nu
              = of_nat (p * t))
          = ((of_nat p :: rat) * (of_nat 512 * 1000000000 * of_nat de)
              = of_nat p * (of_nat t * of_nat nu * 48000))"
      using n0 by (simp add: field_simps)
    also have "\<dots> = ((of_nat p :: rat) = 0
                     \<or> (of_nat 512 :: rat) * 1000000000 * of_nat de = of_nat t * of_nat nu * 48000)"
      by (simp only: mult_cancel_left)
    also have "\<dots> = ((of_nat (p * 512) :: rat) = 0
                \<or> (of_nat t :: rat) * of_nat nu * 48000 = of_nat 512 * 1000000000 * of_nat de)"
      by auto
    finally show ?thesis .
  qed
  have nz_iff: "numer (sTimebaseInfo s) \<noteq> 0 \<longleftrightarrow> nu \<noteq> 0"
    by (simp add: nu_def unat_eq_0)
  show ?thesis
    apply (rule exI [of _ "of_nat (p * 512)"])
    apply (rule exI [of _ "?start + ?periods * ?ticks"])
    unfolding el kRightMic_BufferFrameSize_def kRightMic_SampleRate_def
      t_def [symmetric] nu_def [symmetric] de_def [symmetric] nz_iff
    using r one two by blast
qed


theorem C5_witness:
  "sIO_HostTicksPerPeriod (started_driver \<lparr> numer = 125, denom = 3 \<rparr> 1000 256000) \<noteq> 0
   \<and> sIO_StartHostTime (started_driver \<lparr> numer = 125, denom = 3 \<rparr> 1000 256000) \<le> 769017
   \<and> unat ((769017 - sIO_StartHostTime (started_driver \<lparr> numer = 125, denom = 3 \<rparr> 1000 256000))
            div sIO_HostTicksPerPeriod (started_driver \<lparr> numer = 125, denom = 3 \<rparr> 1000 256000))
       < 2 ^ 53
   \<and> numer (sTimebaseInfo (started_driver \<lparr> numer = 125, denom = 3 \<rparr> 1000 256000)) \<noteq> 0
   \<and> (\<exists>samplePosition hostTime.
         RightMic_GetZeroTimeStamp 769017 (started_driver \<lparr> numer = 125, denom = 3 \<rparr> 1000 256000)
           = Inr (kAudioHardwareNoError, Finite samplePosition, hostTime, 1)
         \<and> of_nat (unat hostTime - 1000) = samplePosition / 512 * 256000
         \<and> samplePosition / 48000 * 1000000000 * 3 / 125 = of_nat (unat hostTime - 1000))"
proof -
  let ?s = "started_driver \<lparr> numer = 125, denom = 3 \<rparr> 1000 256000"
  have f: "sIO_HostTicksPerPeriod ?s = 256000" "sIO_StartHostTime ?s = 1000"
    "sTimebaseInfo ?s = \<lparr> numer = 125, denom = 3 \<rparr>"
    by (simp_all add: started_driver_def)
  have a: "sIO_HostTicksPerPeriod ?s \<noteq> 0" by (simp add: f)
  have b: "sIO_StartHostTime ?s \<le> 769017" by (simp add: f)
  have c: "unat ((769017 - sIO_StartHostTime ?s) div sIO_HostTicksPerPeriod ?s) < 2 ^ 53"
    by (simp add: f)
  have d: "numer (sTimebaseInfo ?s) \<noteq> 0" by (simp add: f)
  show ?thesis
    using C5_time_stamp_pair_consistent [OF a b c] a b c d
    by (simp add: f kRightMic_SampleRate_def kRightMic_BufferFrameSize_def)
qed

text \<open>
  The claim as it stands fails on the timebase 1/1, where a tick is a nanosecond: a
  period of 512 frames lasts 10666666 2/3 ticks and \<open>StartIO\<close> stores 10666666. One period
  after the start the query returns the sample position 512 and the host time 10666666,
  while 512 frames at 48000 Hz last more.
\<close>

theorem C5_counterexample:
  "RightMic_StartIO 0
     (snd (RightMic_Initialize \<lparr> numer = 1, denom = 1 \<rparr> driver_init)) example_world
   = Inr (kAudioHardwareNoError, started_driver \<lparr> numer = 1, denom = 1 \<rparr> 0 10666666,
          example_world\<lparr> syscalls := [Sys_open, Sys_mmap] \<rparr>)
   \<and> RightMic_GetZeroTimeStamp 10666666 (started_driver \<lparr> numer = 1, denom = 1 \<rparr> 0 10666666)
      = Inr (kAudioHardwareNoError, Finite 512, 10666666, 1)
   \<and> (512 / kRightMic_SampleRate * 1000000000 * 1 / 1 :: rat) \<noteq> of_nat (10666666 - 0)"
proof -
  have r: "f64_round 512 = 512" by code_simp
  have "RightMic_GetZeroTimeStamp 10666666 (started_driver \<lparr> numer = 1, denom = 1 \<rparr> 0 10666666)
        = Inr (kAudioHardwareNoError, Finite 512, 10666666, 1)"
    by (simp add: RightMic_GetZeroTimeStamp_def started_driver_def f64_of_u64_def
        kRightMic_BufferFrameSize_def r)
  then show ?thesis
    using StartIO_example [OF ticks_intel, of 0]
    by (simp add: kRightMic_SampleRate_def)
qed

section \<open>Section 13 of the source: setting a property\<close>

record AudioStreamBasicDescription =
  mSampleRate :: Float64
  mFormatID :: UInt32
  mFormatFlags :: UInt32
  mBytesPerPacket :: UInt32
  mFramesPerPacket :: UInt32
  mBytesPerFrame :: UInt32
  mChannelsPerFrame :: UInt32
  mBitsPerChannel :: UInt32
  mReserved :: UInt32

text \<open>
  Constants of the CoreAudio headers (which are not part of the repository): the format
  \<open>'lpcm'\<close>, the format flags, and the selectors \<open>'nsrt'\<close>, \<open>'sfmt'\<close> and \<open>'pft '\<close>.
\<close>

definition kAudioFormatLinearPCM :: UInt32 where
  "kAudioFormatLinearPCM = 0x6C70636D"

definition kAudioFormatFlagIsFloat :: UInt32 where
  "kAudioFormatFlagIsFloat = 1"

definition kAudioFormatFlagIsSignedInteger :: UInt32 where
  "kAudioFormatFlagIsSignedInteger = 4"

definition kAudioFormatFlagsNativeEndian :: UInt32 where
  "kAudioFormatFlagsNativeEndian = 0"

definition kAudioFormatFlagIsPacked :: UInt32 where
  "kAudioFormatFlagIsPacked = 8"

definition kAudioDevicePropertyNominalSampleRate :: UInt32 where
  "kAudioDevicePropertyNominalSampleRate = 0x6E737274"

definition kAudioStreamPropertyVirtualFormat :: UInt32 where
  "kAudioStreamPropertyVirtualFormat = 0x73666D74"

definition kAudioStreamPropertyPhysicalFormat :: UInt32 where
  "kAudioStreamPropertyPhysicalFormat = 0x70667420"

text \<open>The object identifiers of RightMicDriver.h.\<close>

definition kRightMicObjectID_Plugin :: UInt32 where
  "kRightMicObjectID_Plugin = 1"

definition kRightMicObjectID_Device :: UInt32 where
  "kRightMicObjectID_Device = 2"

definition kRightMicObjectID_InputStream :: UInt32 where
  "kRightMicObjectID_InputStream = 3"

definition RightMic_ASBD :: AudioStreamBasicDescription where
  "RightMic_ASBD =
     \<lparr> mSampleRate = Finite kRightMic_SampleRate,
       mFormatID = kAudioFormatLinearPCM,
       mFormatFlags = kAudioFormatFlagIsFloat OR kAudioFormatFlagsNativeEndian
                      OR kAudioFormatFlagIsPacked,
       mBytesPerPacket = word_of_nat kRightMic_BytesPerFrame,
       mFramesPerPacket = 1,
       mBytesPerFrame = word_of_nat kRightMic_BytesPerFrame,
       mChannelsPerFrame = word_of_nat kRightMic_ChannelCount,
       mBitsPerChannel = word_of_nat kRightMic_BitsPerChannel,
       mReserved = 0 \<rparr>"

text \<open>
  \<open>RightMic_SetPropertyData\<close>, with the arguments the body uses: the object, the selector
  of the address, the size of the data and the data. \<open>inData\<close> is an untyped pointer; the
  model carries the bytes behind it in the layout of an \<open>AudioStreamBasicDescription\<close>,
  whose first eight bytes (\<open>mSampleRate\<close>) are what the cast to \<open>Float64\<close> reads. The sizes
  are \<open>sizeof(Float64) = 8\<close> and \<open>sizeof(AudioStreamBasicDescription) = 40\<close>. The function
  writes no global; the model returns the driver's globals to say so.
\<close>

definition RightMic_SetPropertyData ::
  "UInt32 \<Rightarrow> UInt32 \<Rightarrow> UInt32 \<Rightarrow> AudioStreamBasicDescription \<Rightarrow> driver
     \<Rightarrow> OSStatus \<times> driver" where
  "RightMic_SetPropertyData inObjectID mSelector inDataSize inData s =
     (if inObjectID = kRightMicObjectID_Device then
        if mSelector = kAudioDevicePropertyNominalSampleRate then
          if inDataSize < 8 then (kAudioHardwareBadPropertySizeError, s)
          else if f64_ne (mSampleRate inData) (Finite kRightMic_SampleRate)
          then (kAudioDeviceUnsupportedFormatError, s)
          else (kAudioHardwareNoError, s)
        else (kAudioHardwareUnknownPropertyError, s)
      else if inObjectID = kRightMicObjectID_InputStream then
        if mSelector = kAudioStreamPropertyVirtualFormat
           \<or> mSelector = kAudioStreamPropertyPhysicalFormat then
          if inDataSize < 40 then (kAudioHardwareBadPropertySizeError, s)
          else if f64_ne (mSampleRate inData) (mSampleRate RightMic_ASBD)
                  \<or> mChannelsPerFrame inData \<noteq> mChannelsPerFrame RightMic_ASBD
                  \<or> mFormatID inData \<noteq> mFormatID RightMic_ASBD
          then (kAudioDeviceUnsupportedFormatError, s)
          else (kAudioHardwareNoError, s)
        else (kAudioHardwareUnknownPropertyError, s)
      else (kAudioHardwareUnknownPropertyError, s))"

section \<open>Claims about the format\<close>

text \<open>
  A request for 16-bit signed integer samples at 48000 Hz on 2 channels: linear PCM, but
  not the 32-bit floating point format of the driver.
\<close>

definition int16_request :: AudioStreamBasicDescription where
  "int16_request =
     \<lparr> mSampleRate = Finite 48000,
       mFormatID = kAudioFormatLinearPCM,
       mFormatFlags = kAudioFormatFlagIsSignedInteger OR kAudioFormatFlagIsPacked,
       mBytesPerPacket = 4,
       mFramesPerPacket = 1,
       mBytesPerFrame = 4,
       mChannelsPerFrame = 2,
       mBitsPerChannel = 16,
       mReserved = 0 \<rparr>"

text \<open>
  C8. The claim holds for the sample rate, the channel count and the format identifier,
  but the stream formats are compared in these three fields only, although the source
  says "Accept only our exact format": the request for 16-bit integer samples is not the
  format of the driver and is accepted.
\<close>

theorem C8_integer_format_accepted:
  "int16_request \<noteq> RightMic_ASBD
   \<and> mBitsPerChannel int16_request = 16 \<and> mBitsPerChannel RightMic_ASBD = 32
   \<and> mFormatFlags int16_request AND kAudioFormatFlagIsFloat = 0
   \<and> mFormatFlags RightMic_ASBD AND kAudioFormatFlagIsFloat = kAudioFormatFlagIsFloat
   \<and> RightMic_SetPropertyData kRightMicObjectID_InputStream kAudioStreamPropertyVirtualFormat
        40 int16_request driver_init
      = (kAudioHardwareNoError, driver_init)
   \<and> RightMic_SetPropertyData kRightMicObjectID_InputStream kAudioStreamPropertyPhysicalFormat
        40 int16_request driver_init
      = (kAudioHardwareNoError, driver_init)"
  by (simp add: int16_request_def RightMic_ASBD_def RightMic_SetPropertyData_def f64_ne_def
      kRightMic_SampleRate_def kRightMic_ChannelCount_def kRightMic_BitsPerChannel_def
      kRightMic_BytesPerFrame_def kAudioFormatLinearPCM_def kAudioFormatFlagIsFloat_def
      kAudioFormatFlagIsSignedInteger_def kAudioFormatFlagsNativeEndian_def
      kAudioFormatFlagIsPacked_def kRightMicObjectID_Device_def
      kRightMicObjectID_InputStream_def kAudioStreamPropertyVirtualFormat_def
      kAudioStreamPropertyPhysicalFormat_def)

theorem C8_witness:
  "fst (RightMic_SetPropertyData kRightMicObjectID_InputStream kAudioStreamPropertyVirtualFormat
          40 int16_request driver_init) = kAudioHardwareNoError
   \<and> fst (RightMic_SetPropertyData kRightMicObjectID_InputStream kAudioStreamPropertyVirtualFormat
          40 int16_request driver_init) \<noteq> kAudioDeviceUnsupportedFormatError"
  using C8_integer_format_accepted by simp

text \<open>What does hold of \<open>RightMic_SetPropertyData\<close>.\<close>

lemma SetPropertyData_keeps_state:
  "snd (RightMic_SetPropertyData inObjectID mSelector inDataSize inData s) = s"
  by (simp add: RightMic_SetPropertyData_def)

lemma SetPropertyData_sample_rate:
  assumes "8 \<le> inDataSize"
  shows "RightMic_SetPropertyData kRightMicObjectID_Device
           kAudioDevicePropertyNominalSampleRate inDataSize inData s
         = (if mSampleRate inData = Finite 48000 then kAudioHardwareNoError
            else kAudioDeviceUnsupportedFormatError, s)"
  using assms
  by (auto simp: RightMic_SetPropertyData_def f64_ne_def kRightMic_SampleRate_def not_less)

lemma SetPropertyData_stream_format:
  assumes "40 \<le> inDataSize"
    and "mSelector = kAudioStreamPropertyVirtualFormat
         \<or> mSelector = kAudioStreamPropertyPhysicalFormat"
  shows "RightMic_SetPropertyData kRightMicObjectID_InputStream mSelector inDataSize inData s
         = (if mSampleRate inData = Finite 48000 \<and> mChannelsPerFrame inData = 2
               \<and> mFormatID inData = kAudioFormatLinearPCM
            then kAudioHardwareNoError else kAudioDeviceUnsupportedFormatError, s)"
  using assms
  by (auto simp: RightMic_SetPropertyData_def f64_ne_def kRightMic_SampleRate_def not_less
      RightMic_ASBD_def kRightMic_ChannelCount_def kRightMicObjectID_Device_def
      kRightMicObjectID_InputStream_def)

section \<open>Claims about the divisor of the clock\<close>

lemma DoIOOperation_keeps_globals:
  assumes "left_behind (RightMic_DoIOOperation inOperationID framesToFill buf s w)
           = Some (s', w', io)"
  shows "s' = s \<or> s' = fst (reopen_if_unmapped s w)"
proof -
  obtain s1 w1 where re: "reopen_if_unmapped s w = (s1, w1)"
    by (cases "reopen_if_unmapped s w")
  have "s' = s \<or> s' = s1"
    using assms
    by (auto simp: RightMic_DoIOOperation_def Let_def re
        split: if_splits option.splits)
  then show ?thesis by (simp add: re)
qed

lemma DoIOOperation_keeps_clock:
  assumes "left_behind (RightMic_DoIOOperation inOperationID framesToFill buf s w)
           = Some (s', w', io)"
  shows "sIO_HostTicksPerPeriod s' = sIO_HostTicksPerPeriod s"
proof -
  have o: "sIO_HostTicksPerPeriod (fst (RightMic_OpenSharedMemory s w)) = sIO_HostTicksPerPeriod s"
    by (simp add: RightMic_OpenSharedMemory_def Let_def)
  have r: "sIO_HostTicksPerPeriod (fst (reopen_if_unmapped s w)) = sIO_HostTicksPerPeriod s"
    using o by (simp add: reopen_if_unmapped_def)
  from DoIOOperation_keeps_globals [OF assms] show ?thesis using r by auto
qed

lemma StopIO_keeps_clock:
  "sIO_HostTicksPerPeriod (fst (snd (RightMic_StopIO s w))) = sIO_HostTicksPerPeriod s"
  by (simp add: RightMic_StopIO_def RightMic_CloseSharedMemory_def Let_def split: prod.splits)

lemma StartIO_sets_clock:
  assumes "host_ticks_per_period (sTimebaseInfo s) = Some ticks"
  shows "\<exists>s' w'. RightMic_StartIO t0 s w = Inr (kAudioHardwareNoError, s', w')
           \<and> sIO_HostTicksPerPeriod s' = ticks \<and> sIO_StartHostTime s' = t0"
proof -
  let ?s1 = "s\<lparr> sIO_StartHostTime := t0, sIO_HostTicksPerPeriod := ticks \<rparr>"
  obtain s2 w2 where o: "RightMic_OpenSharedMemory ?s1 w = (s2, w2)"
    by (cases "RightMic_OpenSharedMemory ?s1 w")
  have "sIO_HostTicksPerPeriod (fst (RightMic_OpenSharedMemory ?s1 w)) = ticks"
    and "sIO_StartHostTime (fst (RightMic_OpenSharedMemory ?s1 w)) = t0"
    by (simp_all add: RightMic_OpenSharedMemory_def Let_def)
  then have "sIO_HostTicksPerPeriod s2 = ticks" "sIO_StartHostTime s2 = t0"
    using o by simp_all
  then show ?thesis
    using assms o by (simp add: RightMic_StartIO_def)
qed

text \<open>
  C9, as amended. \<open>RightMic_GetZeroTimeStamp\<close> divides by \<open>sIO_HostTicksPerPeriod\<close> without a
  guard: with the divisor zero, as it is before the first \<open>StartIO\<close>, the query is a
  division by zero. \<open>StartIO\<close> makes the divisor positive, and every later query
  well-defined, when the timebase has \<open>numer\<close> not zero and at most \<open>10666666 * denom\<close>,
  that is when a tick of the host is not longer than a period. Reading (whether the call
  returns or stops at a store), stopping, initialising and setting a property leave the
  divisor as it is.
\<close>

theorem C9_divisor_positive_after_start:
  "(sIO_HostTicksPerPeriod s = 0 \<longrightarrow> RightMic_GetZeroTimeStamp now s = Inl DivisionByZero)
   \<and> RightMic_GetZeroTimeStamp now driver_init = Inl DivisionByZero
   \<and> (numer (sTimebaseInfo s) \<noteq> 0
       \<and> unat (numer (sTimebaseInfo s)) \<le> 10666666 * unat (denom (sTimebaseInfo s)) \<longrightarrow>
       (\<exists>s' w'. RightMic_StartIO t0 s w = Inr (kAudioHardwareNoError, s', w')
          \<and> 0 < unat (sIO_HostTicksPerPeriod s')
          \<and> (\<exists>sampleTime hostTime.
                RightMic_GetZeroTimeStamp now s'
                  = Inr (kAudioHardwareNoError, sampleTime, hostTime, 1))))
   \<and> sIO_HostTicksPerPeriod (fst (snd (RightMic_StopIO s w))) = sIO_HostTicksPerPeriod s
   \<and> sIO_HostTicksPerPeriod (snd (RightMic_Initialize timebase s)) = sIO_HostTicksPerPeriod s
   \<and> sIO_HostTicksPerPeriod (snd (RightMic_SetPropertyData inObjectID mSelector inDataSize inData s))
       = sIO_HostTicksPerPeriod s
   \<and> (RightMic_DoIOOperation inOperationID framesToFill buf s w = Inr (st, s2, w2, io) \<longrightarrow>
       sIO_HostTicksPerPeriod s2 = sIO_HostTicksPerPeriod s)
   \<and> (RightMic_DoIOOperation inOperationID framesToFill buf s w
        = Inl (ProtectionFault s3 w3 io3) \<longrightarrow>
       sIO_HostTicksPerPeriod s3 = sIO_HostTicksPerPeriod s)"
proof (intro conjI impI)
  show "RightMic_GetZeroTimeStamp now s = Inl DivisionByZero" if "sIO_HostTicksPerPeriod s = 0"
    using that by (simp add: RightMic_GetZeroTimeStamp_def)
  show "RightMic_GetZeroTimeStamp now driver_init = Inl DivisionByZero"
    by (simp add: RightMic_GetZeroTimeStamp_def driver_init_def)
  show "sIO_HostTicksPerPeriod (fst (snd (RightMic_StopIO s w))) = sIO_HostTicksPerPeriod s"
    by (rule StopIO_keeps_clock)
  show "sIO_HostTicksPerPeriod (snd (RightMic_Initialize timebase s)) = sIO_HostTicksPerPeriod s"
    by (simp add: RightMic_Initialize_def)
  show "sIO_HostTicksPerPeriod (snd (RightMic_SetPropertyData inObjectID mSelector inDataSize inData s))
        = sIO_HostTicksPerPeriod s"
    by (simp add: SetPropertyData_keeps_state)
  show "sIO_HostTicksPerPeriod s2 = sIO_HostTicksPerPeriod s"
    if "RightMic_DoIOOperation inOperationID framesToFill buf s w = Inr (st, s2, w2, io)"
    using that DoIOOperation_keeps_clock [of inOperationID framesToFill buf s w s2 w2 io]
    by simp
  show "sIO_HostTicksPerPeriod s3 = sIO_HostTicksPerPeriod s"
    if "RightMic_DoIOOperation inOperationID framesToFill buf s w
        = Inl (ProtectionFault s3 w3 io3)"
    using that DoIOOperation_keeps_clock [of inOperationID framesToFill buf s w s3 w3 io3]
    by simp
next
  assume tb: "numer (sTimebaseInfo s) \<noteq> 0
       \<and> unat (numer (sTimebaseInfo s)) \<le> 10666666 * unat (denom (sTimebaseInfo s))"
  then obtain ticks where t: "host_ticks_per_period (sTimebaseInfo s) = Some ticks"
    and nz: "ticks \<noteq> 0"
    using host_ticks_positive [of "sTimebaseInfo s"] by blast
  from StartIO_sets_clock [OF t, of t0 w]
  obtain s' w' where r: "RightMic_StartIO t0 s w = Inr (kAudioHardwareNoError, s', w')"
    and c: "sIO_HostTicksPerPeriod s' = ticks"
    by blast
  have "0 < unat (sIO_HostTicksPerPeriod s')" using c nz by (simp add: unat_gt_0)
  moreover have "\<exists>sampleTime hostTime.
                RightMic_GetZeroTimeStamp now s'
                  = Inr (kAudioHardwareNoError, sampleTime, hostTime, 1)"
    using c nz by (simp add: RightMic_GetZeroTimeStamp_def Let_def)
  ultimately show "\<exists>s' w'. RightMic_StartIO t0 s w = Inr (kAudioHardwareNoError, s', w')
          \<and> 0 < unat (sIO_HostTicksPerPeriod s')
          \<and> (\<exists>sampleTime hostTime.
                RightMic_GetZeroTimeStamp now s'
                  = Inr (kAudioHardwareNoError, sampleTime, hostTime, 1))"
    using r by blast
qed

theorem C9_witness:
  "numer (sTimebaseInfo (snd (RightMic_Initialize \<lparr> numer = 125, denom = 3 \<rparr> driver_init))) \<noteq> 0
   \<and> unat (numer (sTimebaseInfo (snd (RightMic_Initialize \<lparr> numer = 125, denom = 3 \<rparr> driver_init))))
       \<le> 10666666
          * unat (denom (sTimebaseInfo (snd (RightMic_Initialize \<lparr> numer = 125, denom = 3 \<rparr> driver_init))))
   \<and> sIO_HostTicksPerPeriod driver_init = 0
   \<and> RightMic_GetZeroTimeStamp 769017 driver_init = Inl DivisionByZero
   \<and> RightMic_DoIOOperation 0x72697465 1 [9, 9] driver_init example_world
       = Inr (kAudioHardwareNoError, driver_init, example_world,
              \<lparr> outBuffer = [9, 9], copies = [] \<rparr>)
   \<and> (\<exists>s' w'. RightMic_StartIO 1000
                  (snd (RightMic_Initialize \<lparr> numer = 125, denom = 3 \<rparr> driver_init)) example_world
                = Inr (kAudioHardwareNoError, s', w')
          \<and> 0 < unat (sIO_HostTicksPerPeriod s')
          \<and> (\<exists>sampleTime hostTime.
                RightMic_GetZeroTimeStamp 769017 s'
                  = Inr (kAudioHardwareNoError, sampleTime, hostTime, 1)))"
proof -
  let ?s = "snd (RightMic_Initialize \<lparr> numer = 125, denom = 3 \<rparr> driver_init)"
  have tb: "sTimebaseInfo ?s = \<lparr> numer = 125, denom = 3 \<rparr>"
    by (simp add: RightMic_Initialize_def)
  have a: "numer (sTimebaseInfo ?s) \<noteq> 0
       \<and> unat (numer (sTimebaseInfo ?s)) \<le> 10666666 * unat (denom (sTimebaseInfo ?s))"
    by (simp add: tb)
  have z: "sIO_HostTicksPerPeriod driver_init = 0" by (simp add: driver_init_def)
  from C9_divisor_positive_after_start [of driver_init 769017]
  have d: "RightMic_GetZeroTimeStamp 769017 driver_init = Inl DivisionByZero"
    by blast
  from C9_divisor_positive_after_start [of ?s 769017 1000 example_world] a
  have "\<exists>s' w'. RightMic_StartIO 1000 ?s example_world = Inr (kAudioHardwareNoError, s', w')
          \<and> 0 < unat (sIO_HostTicksPerPeriod s')
          \<and> (\<exists>sampleTime hostTime.
                RightMic_GetZeroTimeStamp 769017 s'
                  = Inr (kAudioHardwareNoError, sampleTime, hostTime, 1))"
    by blast
  moreover have "RightMic_DoIOOperation 0x72697465 1 [9, 9] driver_init example_world
       = Inr (kAudioHardwareNoError, driver_init, example_world,
              \<lparr> outBuffer = [9, 9], copies = [] \<rparr>)"
    by (simp add: RightMic_DoIOOperation_def kAudioServerPlugInIOOperationReadInput_def)
  ultimately show ?thesis using a z d by blast
qed

text \<open>
  The claim as it stands fails for a timebase whose tick is longer than a period. With
  one tick in a second (\<open>numer = 10^9\<close>, \<open>denom = 1\<close>) \<open>StartIO\<close> stores no ticks for a
  period, and the next query divides by zero.
\<close>

theorem C9_counterexample:
  "numer \<lparr> numer = 1000000000, denom = 1 \<rparr> \<noteq> (0 :: UInt32)
   \<and> denom \<lparr> numer = 1000000000, denom = 1 \<rparr> \<noteq> (0 :: UInt32)
   \<and> RightMic_StartIO 0
        (snd (RightMic_Initialize \<lparr> numer = 1000000000, denom = 1 \<rparr> driver_init)) example_world
      = Inr (kAudioHardwareNoError, started_driver \<lparr> numer = 1000000000, denom = 1 \<rparr> 0 0,
             example_world\<lparr> syscalls := [Sys_open, Sys_mmap] \<rparr>)
   \<and> sIO_HostTicksPerPeriod (started_driver \<lparr> numer = 1000000000, denom = 1 \<rparr> 0 0) = 0
   \<and> RightMic_GetZeroTimeStamp 5 (started_driver \<lparr> numer = 1000000000, denom = 1 \<rparr> 0 0)
      = Inl DivisionByZero"
  using StartIO_example [OF ticks_slow_clock, of 0]
  by (simp add: RightMic_GetZeroTimeStamp_def started_driver_def)

section \<open>Further properties\<close>

text \<open>
  What \<open>RightMic_SetPropertyData\<close> does check. It never changes the globals; a nominal
  sample rate of sufficient size is accepted exactly when it is 48000, and a stream
  format of sufficient size exactly when its sample rate is 48000, its channel count 2
  and its format identifier linear PCM; every other such request gets the
  unsupported-format status.
\<close>

theorem SetPropertyData_checks:
  "snd (RightMic_SetPropertyData inObjectID mSelector inDataSize inData s) = s
   \<and> (8 \<le> inDataSize \<longrightarrow>
        fst (RightMic_SetPropertyData kRightMicObjectID_Device
               kAudioDevicePropertyNominalSampleRate inDataSize inData s)
        = (if mSampleRate inData = Finite 48000 then kAudioHardwareNoError
           else kAudioDeviceUnsupportedFormatError))
   \<and> (40 \<le> inDataSize
        \<and> (mSelector = kAudioStreamPropertyVirtualFormat
             \<or> mSelector = kAudioStreamPropertyPhysicalFormat) \<longrightarrow>
        fst (RightMic_SetPropertyData kRightMicObjectID_InputStream mSelector inDataSize inData s)
        = (if mSampleRate inData = Finite 48000 \<and> mChannelsPerFrame inData = 2
              \<and> mFormatID inData = kAudioFormatLinearPCM
           then kAudioHardwareNoError else kAudioDeviceUnsupportedFormatError))"
  using SetPropertyData_sample_rate [of inDataSize inData s]
    SetPropertyData_stream_format [of inDataSize mSelector inData s]
  by (simp add: SetPropertyData_keeps_state)

theorem SetPropertyData_checks_witness:
  "(8 :: UInt32) \<le> 8 \<and> (40 :: UInt32) \<le> 40
   \<and> fst (RightMic_SetPropertyData kRightMicObjectID_Device
            kAudioDevicePropertyNominalSampleRate 8
            (RightMic_ASBD\<lparr> mSampleRate := Finite 44100 \<rparr>) driver_init)
      = kAudioDeviceUnsupportedFormatError
   \<and> fst (RightMic_SetPropertyData kRightMicObjectID_InputStream
            kAudioStreamPropertyVirtualFormat 40 RightMic_ASBD driver_init)
      = kAudioHardwareNoError
   \<and> fst (RightMic_SetPropertyData kRightMicObjectID_InputStream
            kAudioStreamPropertyVirtualFormat 40
            (RightMic_ASBD\<lparr> mChannelsPerFrame := 1 \<rparr>) driver_init)
      = kAudioDeviceUnsupportedFormatError"
proof -
  have a: "(8 :: UInt32) \<le> 8" and b: "(40 :: UInt32) \<le> 40" by simp_all
  have f: "mSampleRate RightMic_ASBD = Finite 48000" "mChannelsPerFrame RightMic_ASBD = 2"
    "mFormatID RightMic_ASBD = kAudioFormatLinearPCM"
    by (simp_all add: RightMic_ASBD_def kRightMic_SampleRate_def kRightMic_ChannelCount_def)
  show ?thesis
    using SetPropertyData_checks [of kRightMicObjectID_Device
        kAudioStreamPropertyVirtualFormat 8 "RightMic_ASBD\<lparr> mSampleRate := Finite 44100 \<rparr>"
        driver_init]
      SetPropertyData_checks [of kRightMicObjectID_Device
        kAudioStreamPropertyVirtualFormat 40 RightMic_ASBD driver_init]
      SetPropertyData_checks [of kRightMicObjectID_Device
        kAudioStreamPropertyVirtualFormat 40 "RightMic_ASBD\<lparr> mChannelsPerFrame := 1 \<rparr>"
        driver_init]
    by (simp add: f)
qed

text \<open>
  The pointers of the driver stay consistent: starting, stopping, reading and the
  opening and closing of the shared memory keep them set or cleared together, and a
  pointer that is set points into pages mapped \<open>PROT_READ\<close>.
\<close>

theorem pointers_stay_consistent:
  "pointers_consistent driver_init
   \<and> (pointers_consistent s \<longrightarrow>
        pointers_consistent (fst (RightMic_OpenSharedMemory s w))
        \<and> pointers_consistent (fst (snd (RightMic_StopIO s w)))
        \<and> (RightMic_StartIO t0 s w = Inr (st, s1, w1) \<longrightarrow> pointers_consistent s1)
        \<and> (left_behind (RightMic_DoIOOperation inOperationID framesToFill buf s w)
              = Some (s2, w2, io)
            \<longrightarrow> pointers_consistent s2))"
proof (intro conjI impI)
  show "pointers_consistent driver_init" by (rule pointers_consistent_init)
next
  assume c: "pointers_consistent s"
  show "pointers_consistent (fst (RightMic_OpenSharedMemory s w))"
    by (rule OpenSharedMemory_consistent [OF c])
  show "pointers_consistent (fst (snd (RightMic_StopIO s w)))"
    using CloseSharedMemory_consistent [of "s\<lparr> sDeviceIsRunning := False \<rparr>" w]
    by (simp add: RightMic_StopIO_def split: prod.splits)
next
  assume c: "pointers_consistent s"
    and r: "RightMic_StartIO t0 s w = Inr (st, s1, w1)"
  from r obtain ticks x1 where
    o: "RightMic_OpenSharedMemory
          (s\<lparr> sIO_StartHostTime := t0, sIO_HostTicksPerPeriod := ticks \<rparr>) w = (x1, w1)"
    and s1: "s1 = x1\<lparr> sDeviceIsRunning := True \<rparr>"
    by (auto simp: RightMic_StartIO_def Let_def split: option.splits prod.splits)
  have "pointers_consistent (s\<lparr> sIO_StartHostTime := t0, sIO_HostTicksPerPeriod := ticks \<rparr>)"
    using c by (simp add: pointers_consistent_def)
  from OpenSharedMemory_consistent [OF this, of w]
  have "pointers_consistent x1" by (simp add: o)
  then show "pointers_consistent s1"
    by (simp add: s1 pointers_consistent_def)
next
  assume c: "pointers_consistent s"
    and r: "left_behind (RightMic_DoIOOperation inOperationID framesToFill buf s w)
            = Some (s2, w2, io)"
  obtain s1 w1 where re: "reopen_if_unmapped s w = (s1, w1)"
    by (cases "reopen_if_unmapped s w")
  have "s2 = s \<or> s2 = s1"
    using DoIOOperation_keeps_globals [OF r] by (simp add: re)
  then show "pointers_consistent s2"
    using c reopen_consistent [OF re c] by auto
qed

theorem pointers_stay_consistent_witness:
  "pointers_consistent driver_init
   \<and> pointers_consistent (fst (RightMic_OpenSharedMemory driver_init example_world))
   \<and> pointers_consistent (fst (snd (RightMic_StopIO driver_init example_world)))
   \<and> RightMic_StartIO 1000
        (snd (RightMic_Initialize \<lparr> numer = 125, denom = 3 \<rparr> driver_init)) example_world
      = Inr (kAudioHardwareNoError, started_driver \<lparr> numer = 125, denom = 3 \<rparr> 1000 256000,
             example_world\<lparr> syscalls := [Sys_open, Sys_mmap] \<rparr>)
   \<and> pointers_consistent (started_driver \<lparr> numer = 125, denom = 3 \<rparr> 1000 256000)
   \<and> RightMic_DoIOOperation 0x72697465 1 [9, 9] driver_init example_world
      = Inr (kAudioHardwareNoError, driver_init, example_world,
             \<lparr> outBuffer = [9, 9], copies = [] \<rparr>)"
proof -
  let ?s0 = "snd (RightMic_Initialize \<lparr> numer = 125, denom = 3 \<rparr> driver_init)"
  have i: "pointers_consistent ?s0"
    by (simp add: RightMic_Initialize_def pointers_consistent_def driver_init_def)
  note st = StartIO_example [OF ticks_apple_silicon, of 1000]
  have d: "RightMic_DoIOOperation 0x72697465 1 [9, 9] driver_init example_world
      = Inr (kAudioHardwareNoError, driver_init, example_world,
             \<lparr> outBuffer = [9, 9], copies = [] \<rparr>)"
    by (simp add: RightMic_DoIOOperation_def kAudioServerPlugInIOOperationReadInput_def)
  from pointers_stay_consistent [of driver_init example_world]
  have "pointers_consistent driver_init"
    and "pointers_consistent (fst (RightMic_OpenSharedMemory driver_init example_world))"
    and "pointers_consistent (fst (snd (RightMic_StopIO driver_init example_world)))"
    by blast+
  moreover from pointers_stay_consistent [of ?s0 example_world 1000 kAudioHardwareNoError
      "started_driver \<lparr> numer = 125, denom = 3 \<rparr> 1000 256000"
      "example_world\<lparr> syscalls := [Sys_open, Sys_mmap] \<rparr>"] i st
  have "pointers_consistent (started_driver \<lparr> numer = 125, denom = 3 \<rparr> 1000 256000)"
    by blast
  ultimately show ?thesis using st d by blast
qed

text \<open>
  When a read returns. For a driver whose pointers are consistent, a region of the mapped
  size and a buffer of the requested size, a read returns exactly when it takes the
  silence path. A read that finds the region mapped, the writer active and the frames it
  asks for stops at the store of line 1038, since the region is mapped \<open>PROT_READ\<close> (line
  889). Either way the shared region is as before.
\<close>

theorem read_returns_only_silence:
  assumes "pointers_consistent s"
    and "region_sized (region w)"
    and "length buf = kRightMic_ChannelCount * unat framesToFill"
    and "reopen_if_unmapped s w = (s1, w1)"
  shows "(sRingHeader s1 = NULL \<or> active (header (region w)) = 0
            \<or> available_frames (writeHead (header (region w))) (readHead (header (region w)))
                 < ucast framesToFill \<longrightarrow>
          (\<exists>io. RightMic_DoIOOperation kAudioServerPlugInIOOperationReadInput framesToFill buf s w
                  = Inr (kAudioHardwareNoError, s1, w1, io)))
         \<and> (sRingHeader s1 \<noteq> NULL \<and> active (header (region w)) \<noteq> 0
              \<and> ucast framesToFill
                  \<le> available_frames (writeHead (header (region w))) (readHead (header (region w)))
              \<longrightarrow>
             (\<exists>io. RightMic_DoIOOperation kAudioServerPlugInIOOperationReadInput framesToFill buf s w
                     = Inl (ProtectionFault s1 w1 io)))
         \<and> region w1 = region w"
proof (intro conjI impI)
  note reg = reopen_region [OF assms(4)]
  have buf: "length buf = 2 * unat framesToFill"
    using assms(3) by (simp add: kRightMic_ChannelCount_def)
  show "region w1 = region w" by (rule reg)
  show "\<exists>io. RightMic_DoIOOperation kAudioServerPlugInIOOperationReadInput framesToFill buf s w
              = Inr (kAudioHardwareNoError, s1, w1, io)"
    if q: "sRingHeader s1 = NULL \<or> active (header (region w)) = 0
            \<or> available_frames (writeHead (header (region w))) (readHead (header (region w)))
                 < ucast framesToFill"
  proof -
    obtain sil where sil: "fill_silence (framesToFill * word_of_nat kRightMic_ChannelCount) buf
                           = Some sil"
      using fill_silence_total [OF buf] by blast
    have "RightMic_DoIOOperation kAudioServerPlugInIOOperationReadInput framesToFill buf s w
          = Inr (kAudioHardwareNoError, s1, w1, sil)"
      using q by (auto simp: RightMic_DoIOOperation_def Let_def assms(4) reg sil
          not_le [symmetric])
    then show ?thesis by blast
  qed
  show "\<exists>io. RightMic_DoIOOperation kAudioServerPlugInIOOperationReadInput framesToFill buf s w
              = Inl (ProtectionFault s1 w1 io)"
    if d: "sRingHeader s1 \<noteq> NULL \<and> active (header (region w)) \<noteq> 0
           \<and> ucast framesToFill
               \<le> available_frames (writeHead (header (region w))) (readHead (header (region w)))"
  proof -
    note ptr = reopen_pointers [OF assms(4,1)]
    from DoIOOperation_stops [OF assms(4) ptr, of framesToFill buf] d assms(2) buf reg
    show ?thesis by auto
  qed
qed

theorem read_returns_only_silence_witness:
  "pointers_consistent driver_init
   \<and> region_sized (region example_world_one_frame)
   \<and> length [9, 9 :: sample] = kRightMic_ChannelCount * unat (1 :: UInt32)
   \<and> length [9, 9, 9, 9 :: sample] = kRightMic_ChannelCount * unat (2 :: UInt32)
   \<and> reopen_if_unmapped driver_init example_world_one_frame
       = (mapped_driver, example_world_one_frame\<lparr> syscalls := [Sys_open, Sys_mmap] \<rparr>)
   \<and> (\<exists>io. RightMic_DoIOOperation kAudioServerPlugInIOOperationReadInput 1 [9, 9]
               driver_init example_world_one_frame
             = Inl (ProtectionFault mapped_driver
                      (example_world_one_frame\<lparr> syscalls := [Sys_open, Sys_mmap] \<rparr>) io))
   \<and> (\<exists>io. RightMic_DoIOOperation kAudioServerPlugInIOOperationReadInput 2 [9, 9, 9, 9]
               driver_init example_world_one_frame
             = Inr (kAudioHardwareNoError, mapped_driver,
                    example_world_one_frame\<lparr> syscalls := [Sys_open, Sys_mmap] \<rparr>, io))"
proof -
  let ?w = example_world_one_frame
  have b: "region_sized (region ?w)"
    by (simp add: example_world_one_frame_def region_sized_def kRightMic_RingBufferFrames_def
        kRightMic_ChannelCount_def)
  have c1: "length [9, 9 :: sample] = kRightMic_ChannelCount * unat (1 :: UInt32)"
    and c2: "length [9, 9, 9, 9 :: sample] = kRightMic_ChannelCount * unat (2 :: UInt32)"
    by (simp_all add: kRightMic_ChannelCount_def)
  have h: "writeHead (header (region ?w)) = 1" "readHead (header (region ?w)) = 0"
    "active (header (region ?w)) = 1"
    by (simp_all add: example_world_one_frame_def)
  have p: "sRingHeader mapped_driver \<noteq> NULL" by (simp add: mapped_driver_def)
  have av: "available_frames 1 0 = (1 :: UInt64)" by (simp add: available_frames_def)
  from read_returns_only_silence [OF pointers_consistent_init b c1 reopen_one_frame]
  have one: "\<exists>io. RightMic_DoIOOperation kAudioServerPlugInIOOperationReadInput 1 [9, 9]
               driver_init ?w
             = Inl (ProtectionFault mapped_driver (?w\<lparr> syscalls := [Sys_open, Sys_mmap] \<rparr>) io)"
    using p by (simp add: h av)
  from read_returns_only_silence [OF pointers_consistent_init b c2 reopen_one_frame]
  have two: "\<exists>io. RightMic_DoIOOperation kAudioServerPlugInIOOperationReadInput 2 [9, 9, 9, 9]
               driver_init ?w
             = Inr (kAudioHardwareNoError, mapped_driver,
                    ?w\<lparr> syscalls := [Sys_open, Sys_mmap] \<rparr>, io)"
    by (simp add: h av)
  show ?thesis
    using one two b c1 c2 pointers_consistent_init reopen_one_frame by blast
qed

end
